theory Spec2Isabelle
  imports Complex_Main
begin

section \<open>Rest: the per-bucket request queue of package/src/core/rest.ts\<close>

text \<open>
  The class \<open>Rest\<close> keeps one \<open>BucketInfo\<close> per key \<open>METHOD route\<close>. JavaScript runs
  it on one event loop, so the model is a state record and one function per callback
  that the event loop can run: a call of \<open>request\<close>, a \<open>setTimeout\<close> callback, the
  three continuations of a job's \<open>async\<close> body (\<open>fetch\<close> resolved, \<open>fetch\<close> rejected,
  \<open>res.json()\<close> settled) and the passing of time.

  Numbers: \<open>Date.now()\<close> and \<open>resetAt\<close> are milliseconds, modelled as \<open>real\<close>, and time
  does not run backwards; \<open>remaining\<close> is the integer \<open>parseInt\<close> reads. The two
  rate-limit headers are taken as already parsed numerals (\<open>None\<close> when the header is
  absent, where the source substitutes the texts "1" and "0"); a header whose text is
  not a number, for which \<open>parseInt\<close> gives \<open>NaN\<close>, and the rounding of floating point
  are outside the model. The dictionary of buckets is created without a limit, so its
  \<open>set\<close> always stores.
\<close>

type_synonym job = nat

record BucketInfo =
  resetAt :: real
  remaining :: int
  queue :: "job list"
  isRunning :: bool

datatype Method = POST | GET | PATCH | DELETE | PUT

fun Method_str :: "Method \<Rightarrow> string" where
  "Method_str POST = ''POST''"
| "Method_str GET = ''GET''"
| "Method_str PATCH = ''PATCH''"
| "Method_str DELETE = ''DELETE''"
| "Method_str PUT = ''PUT''"

text \<open>What \<open>fetch\<close> resolved with, as far as the job's body reads it.\<close>

record response =
  ok :: bool
  status :: nat
  rl_remaining :: "int option"
  rl_reset :: "real option"

text \<open>The state of the promise that \<open>request\<close> returned to its caller.\<close>

datatype settlement = Resolved string | Rejected nat string

text \<open>Where the body of a started job stands: at \<open>await fetch\<close>, or at \<open>await res.json()\<close>.\<close>

datatype phase = Fetching | Parsing response

text \<open>A log kept beside the state (the code has none): which job was queued, begun, ended, and when.\<close>

datatype obs = Queued string job | Begin string job real | End string job real

record Rest =
  buckets :: "string \<rightharpoonup> BucketInfo"
  clock :: real
  timers :: "(real \<times> string) list"
  running :: "(job \<times> string \<times> phase) list"
  promises :: "job \<rightharpoonup> settlement"
  next_job :: job
  history :: "obs list"

definition new_Rest :: "real \<Rightarrow> Rest" where
  "new_Rest t0 = \<lparr>buckets = Map.empty, clock = t0, timers = [], running = [],
     promises = Map.empty, next_job = 0, history = []\<rparr>"

definition upper_char :: "char \<Rightarrow> char" where
  "upper_char c = (let n = (of_char c :: nat) in if 97 \<le> n \<and> n \<le> 122 then char_of (n - 32) else c)"

definition toUpperCase :: "string \<Rightarrow> string" where
  "toUpperCase str = map upper_char str"

definition getBucketKey :: "string \<Rightarrow> string \<Rightarrow> string" where
  "getBucketKey method route = toUpperCase method @ '' '' @ route"

text \<open>
  \<open>runBucket(key)\<close>. The timer is recorded with the time at which it is due,
  \<open>Date.now() + delay\<close> with \<open>delay = resetAt - Date.now()\<close>.
\<close>

definition runBucket :: "string \<Rightarrow> Rest \<Rightarrow> Rest" where
  "runBucket key R =
     (case buckets R key of
        None \<Rightarrow> R
      | Some bucket \<Rightarrow>
          if remaining bucket \<le> 0 \<and> clock R < resetAt bucket
          then R\<lparr>timers := timers R @ [(clock R + (resetAt bucket - clock R), key)]\<rparr>
          else (case queue bucket of
                  [] \<Rightarrow> R\<lparr>buckets := (buckets R)(key \<mapsto> bucket\<lparr>isRunning := False\<rparr>)\<rparr>
                | j # rest \<Rightarrow>
                    R\<lparr>buckets := (buckets R)(key \<mapsto>
                         bucket\<lparr>queue := rest, isRunning := True, remaining := remaining bucket - 1\<rparr>),
                      running := running R @ [(j, key, Fetching)],
                      history := history R @ [Begin key j (clock R)]\<rparr>))"

definition queueRequest :: "string \<Rightarrow> string \<Rightarrow> job \<Rightarrow> Rest \<Rightarrow> Rest" where
  "queueRequest method route exec R =
     (let key = getBucketKey method route;
          bucket = (case buckets R key of
                      Some b \<Rightarrow> b
                    | None \<Rightarrow> \<lparr>resetAt = 0, remaining = 1, queue = [], isRunning = False\<rparr>);
          bucket' = bucket\<lparr>queue := queue bucket @ [exec]\<rparr>;
          R' = R\<lparr>buckets := (buckets R)(key \<mapsto> bucket'), history := history R @ [Queued key exec]\<rparr>
      in if \<not> isRunning bucket' then runBucket key R' else R')"

text \<open>
  \<open>request\<close>: a new promise and a new job closure (the next unused number), handed to
  \<open>queueRequest\<close>. The closure keeps \<open>method\<close> and \<open>_route\<close>, hence its bucket key.
\<close>

definition request :: "Method \<Rightarrow> string \<Rightarrow> Rest \<Rightarrow> Rest" where
  "request method route R =
     queueRequest (Method_str method) route (next_job R) (R\<lparr>next_job := Suc (next_job R)\<rparr>)"

fun drop_job :: "job \<Rightarrow> (job \<times> string \<times> phase) list \<Rightarrow> (job \<times> string \<times> phase) list" where
  "drop_job j [] = []"
| "drop_job j ((i, k, p) # rs) = (if i = j then rs else (i, k, p) # drop_job j rs)"

fun find_job :: "job \<Rightarrow> (job \<times> string \<times> phase) list \<Rightarrow> (string \<times> phase) option" where
  "find_job j [] = None"
| "find_job j ((i, k, p) # rs) = (if i = j then Some (k, p) else find_job j rs)"

fun set_phase :: "job \<Rightarrow> phase \<Rightarrow> (job \<times> string \<times> phase) list \<Rightarrow> (job \<times> string \<times> phase) list" where
  "set_phase j q [] = []"
| "set_phase j q ((i, k, p) # rs) = (if i = j then (i, k, q) # rs else (i, k, p) # set_phase j q rs)"

text \<open>
  The job's body after \<open>await fetch\<close> resolved: both headers are read, the bucket (when
  it exists) takes \<open>remaining\<close> and \<open>resetAt = reset * 1000\<close>, and the body waits for
  \<open>res.json()\<close>.
\<close>

definition fetch_resolved :: "job \<Rightarrow> response \<Rightarrow> Rest \<Rightarrow> Rest option" where
  "fetch_resolved j res R =
     (case find_job j (running R) of
        Some (key, Fetching) \<Rightarrow>
          (let remaining' = (case rl_remaining res of Some n \<Rightarrow> n | None \<Rightarrow> 1);
               reset = (case rl_reset res of Some x \<Rightarrow> x | None \<Rightarrow> 0);
               R' = (case buckets R key of
                       Some bucket \<Rightarrow>
                         R\<lparr>buckets := (buckets R)(key \<mapsto> bucket\<lparr>remaining := remaining', resetAt := reset * 1000\<rparr>)\<rparr>
                     | None \<Rightarrow> R)
           in Some (R'\<lparr>running := set_phase j (Parsing res) (running R')\<rparr>))
      | _ \<Rightarrow> None)"

text \<open>
  \<open>res.json().catch(() => ({}))\<close> settled with \<open>body\<close> (\<open>None\<close>: it was rejected, and the
  body is \<open>{}\<close>): the caller's promise is rejected with \<open>{status, body}\<close> or resolved with
  the data, the job's promise is fulfilled and its \<open>finally\<close> runs \<open>runBucket\<close>.
\<close>

definition json_settled :: "job \<Rightarrow> string option \<Rightarrow> Rest \<Rightarrow> Rest option" where
  "json_settled j body R =
     (case find_job j (running R) of
        Some (key, Parsing res) \<Rightarrow>
          (let data = (case body of Some b \<Rightarrow> b | None \<Rightarrow> ''{}'');
               outcome = (if \<not> ok res then Rejected (status res) data else Resolved data)
           in Some (runBucket key
                (R\<lparr>promises := (promises R)(j \<mapsto> outcome),
                   running := drop_job j (running R),
                   history := history R @ [End key j (clock R)]\<rparr>)))
      | _ \<Rightarrow> None)"

text \<open>
  \<open>await fetch\<close> threw (no response: DNS, connection reset): the job's promise is rejected
  at that line, neither \<open>resolve\<close> nor \<open>reject\<close> of the caller's promise is reached, and
  the \<open>finally\<close> runs \<open>runBucket\<close>.
\<close>

definition fetch_rejected :: "job \<Rightarrow> Rest \<Rightarrow> Rest option" where
  "fetch_rejected j R =
     (case find_job j (running R) of
        Some (key, Fetching) \<Rightarrow>
          Some (runBucket key
            (R\<lparr>running := drop_job j (running R),
               history := history R @ [End key j (clock R)]\<rparr>))
      | _ \<Rightarrow> None)"

text \<open>The \<open>i\<close>-th pending \<open>setTimeout\<close> callback runs, once its time has come.\<close>

definition timeout :: "nat \<Rightarrow> Rest \<Rightarrow> Rest option" where
  "timeout i R =
     (if i < length (timers R) \<and> fst (timers R ! i) \<le> clock R
      then Some (runBucket (snd (timers R ! i))
                  (R\<lparr>timers := take i (timers R) @ drop (Suc i) (timers R)\<rparr>))
      else None)"

definition tick :: "real \<Rightarrow> Rest \<Rightarrow> Rest option" where
  "tick d R = (if 0 \<le> d then Some (R\<lparr>clock := clock R + d\<rparr>) else None)"

text \<open>What the event loop can do next; \<open>None\<close> when the event cannot happen in that state.\<close>

datatype event =
    Request Method string
  | Tick real
  | Timeout nat
  | FetchResolved job response
  | FetchRejected job
  | JsonSettled job "string option"

fun fire :: "event \<Rightarrow> Rest \<Rightarrow> Rest option" where
  "fire (Request m route) R = Some (request m route R)"
| "fire (Tick d) R = tick d R"
| "fire (Timeout i) R = timeout i R"
| "fire (FetchResolved j res) R = fetch_resolved j res R"
| "fire (FetchRejected j) R = fetch_rejected j R"
| "fire (JsonSettled j body) R = json_settled j body R"

fun run :: "event list \<Rightarrow> Rest \<Rightarrow> Rest option" where
  "run [] R = Some R"
| "run (e # es) R = (case fire e R of None \<Rightarrow> None | Some R' \<Rightarrow> run es R')"

text \<open>Reading the log for one bucket.\<close>

fun queued :: "string \<Rightarrow> obs list \<Rightarrow> job list" where
  "queued key [] = []"
| "queued key (Queued k j # h) = (if k = key then j # queued key h else queued key h)"
| "queued key (_ # h) = queued key h"

fun begun :: "string \<Rightarrow> obs list \<Rightarrow> job list" where
  "begun key [] = []"
| "begun key (Begin k j t # h) = (if k = key then j # begun key h else begun key h)"
| "begun key (_ # h) = begun key h"

text \<open>
  \<open>windows key open h\<close>: in the log \<open>h\<close>, read with the job \<open>open\<close> of this bucket in
  flight at its start, no job of the bucket begins before the one before it has ended.
  The result is the job in flight at the end of the log, or \<open>None\<close> when two windows
  overlap (or an end has no beginning).
\<close>

fun windows :: "string \<Rightarrow> job option \<Rightarrow> obs list \<Rightarrow> job option option" where
  "windows key cur [] = Some cur"
| "windows key cur (Queued k j # h) = windows key cur h"
| "windows key cur (Begin k j t # h) =
     (if k = key then (case cur of None \<Rightarrow> windows key (Some j) h | Some _ \<Rightarrow> None)
      else windows key cur h)"
| "windows key cur (End k j t # h) =
     (if k = key then (if cur = Some j then windows key None h else None)
      else windows key cur h)"

definition in_flight :: "string \<Rightarrow> Rest \<Rightarrow> job list" where
  "in_flight key R = map fst (filter (\<lambda>(j, k, p). k = key) (running R))"

definition bucket_queue :: "string \<Rightarrow> Rest \<Rightarrow> job list" where
  "bucket_queue key R = (case buckets R key of None \<Rightarrow> [] | Some b \<Rightarrow> queue b)"

subsection \<open>The invariant of one bucket\<close>

text \<open>
  A bucket is driven by its job in flight or by its pending timer: \<open>isRunning\<close> says
  that exactly one of them exists, and an idle bucket is one whose next job may start
  at once. \<open>handover\<close> is the state in which \<open>runBucket\<close> is entered.
\<close>

definition timers_of :: "string \<Rightarrow> Rest \<Rightarrow> (real \<times> string) list" where
  "timers_of key R = filter (\<lambda>(d, k). k = key) (timers R)"

definition drivers :: "string \<Rightarrow> Rest \<Rightarrow> nat" where
  "drivers key R = length (in_flight key R) + length (timers_of key R)"

definition log_ok :: "string \<Rightarrow> Rest \<Rightarrow> bool" where
  "log_ok key R =
     (begun key (history R) @ bucket_queue key R = queued key (history R) \<and>
      windows key None (history R) = Some (case in_flight key R of [] \<Rightarrow> None | j # _ \<Rightarrow> Some j))"

definition may_pop :: "BucketInfo \<Rightarrow> real \<Rightarrow> bool" where
  "may_pop b t = (0 < remaining b \<or> resetAt b \<le> t)"

definition bucket_inv :: "string \<Rightarrow> Rest \<Rightarrow> bool" where
  "bucket_inv key R =
     (log_ok key R \<and>
      (case buckets R key of
         None \<Rightarrow> drivers key R = 0
       | Some b \<Rightarrow> if isRunning b then drivers key R = 1
                   else drivers key R = 0 \<and> may_pop b (clock R)))"

definition handover :: "string \<Rightarrow> Rest \<Rightarrow> bool" where
  "handover key R =
     (log_ok key R \<and> drivers key R = 0 \<and>
      (case buckets R key of None \<Rightarrow> True | Some b \<Rightarrow> \<not> isRunning b \<longrightarrow> may_pop b (clock R)))"

subsection \<open>After a response that exhausts the bucket\<close>

text \<open>The times at which jobs of one bucket began, read from the log.\<close>

fun begin_times :: "string \<Rightarrow> obs list \<Rightarrow> real list" where
  "begin_times key [] = []"
| "begin_times key (Begin k j t # h) = (if k = key then t # begin_times key h else begin_times key h)"
| "begin_times key (_ # h) = begin_times key h"

text \<open>The jobs of a bucket that are still at \<open>await fetch\<close>: the ones whose response can yet
  change \<open>remaining\<close> and \<open>resetAt\<close>.\<close>

definition fetching :: "string \<Rightarrow> Rest \<Rightarrow> job list" where
  "fetching key R = map fst (filter (\<lambda>(j, k, p). k = key \<and> (case p of Fetching \<Rightarrow> True | Parsing _ \<Rightarrow> False)) (running R))"

text \<open>
  \<open>throttled key x R\<close>: the time \<open>x\<close> has come, or the bucket is exhausted until \<open>x\<close> and no
  response is outstanding that could change that. \<open>late key x n R\<close>: every job of the
  bucket logged after the first \<open>n\<close> entries began at \<open>x\<close> or later.
\<close>

definition throttled :: "string \<Rightarrow> real \<Rightarrow> Rest \<Rightarrow> bool" where
  "throttled key x R =
     (if x \<le> clock R then True
      else fetching key R = [] \<and>
        (case buckets R key of None \<Rightarrow> False | Some b \<Rightarrow> remaining b \<le> 0 \<and> resetAt b = x))"

definition late :: "string \<Rightarrow> real \<Rightarrow> nat \<Rightarrow> Rest \<Rightarrow> bool" where
  "late key x n R = (n \<le> length (history R) \<and> list_all (\<lambda>t. x \<le> t) (begin_times key (drop n (history R))))"

subsection \<open>A job whose promise nobody will settle\<close>

text \<open>A job that has left the queue and the running list, its promise unsettled.\<close>

definition abandoned :: "job \<Rightarrow> Rest \<Rightarrow> bool" where
  "abandoned j R =
     (j < next_job R \<and> promises R j = None \<and> find_job j (running R) = None \<and>
      (\<forall>key b. buckets R key = Some b \<longrightarrow> j \<notin> set (queue b)))"

subsection \<open>An example run\<close>

text \<open>
  Two requests to one route; the first is answered with \<open>remaining = 0\<close> and a reset two
  seconds after the start, its body is parsed, two seconds pass and the retry timer
  runs. \<open>after es R\<close> is the state after the events \<open>es\<close>.
\<close>

definition after :: "event list \<Rightarrow> Rest \<Rightarrow> Rest" where
  "after es R = (case run es R of Some R' \<Rightarrow> R' | None \<Rightarrow> R)"

definition demo_res :: response where
  "demo_res = \<lparr>ok = True, status = 200, rl_remaining = Some 0, rl_reset = Some 2\<rparr>"

definition demo :: "event list" where
  "demo = [Request GET ''user'', Request GET ''user'',
     FetchResolved 0 \<lparr>ok = True, status = 200, rl_remaining = Some 0, rl_reset = Some 2\<rparr>,
     JsonSettled 0 (Some ''{}''), Tick 2000, Timeout 0]"

definition demo_R0 :: Rest where
  "demo_R0 = after [Request GET ''user'', Request GET ''user''] (new_Rest 0)"

definition demo_R1 :: Rest where
  "demo_R1 = after [FetchResolved 0 demo_res] demo_R0"

definition demo_tail :: "event list" where
  "demo_tail = [JsonSettled 0 (Some ''{}''), Tick 2000, Timeout 0]"

section \<open>Socket: the gateway connection of core/socket.ts\<close>

text \<open>
  The class \<open>Socket\<close> is a set of callbacks run by one event loop. Each \<open>async\<close> method is
  cut at its \<open>await\<close>s into functions on the state; where a method is suspended, the
  closure that will resume it is stored where the source stores it (a handler property of
  the \<open>WebSocket\<close> object, a timer), as a value of a datatype that names the closure.
  \<open>WebSocket\<close> objects live in a store, \<open>sockets\<close>, and \<open>this._ws\<close> is a reference into it:
  \<open>destroy\<close> and the handlers of \<open>start\<close> go on using an object after \<open>this._ws\<close> has been
  set to \<open>null\<close> or to a newer object.

  What the code does to the outside is recorded in the state: the calls of the logger,
  of the session store, of \<open>ws.send\<close> and \<open>ws.close\<close>, of the event handlers, and the
  settlement of the promises returned by \<open>start\<close>, \<open>destroy\<close> and \<open>reconnect\<close>.
\<close>

datatype GatewayOpcodes =
    Dispatch | Heartbeat | Identify | PresenceUpdate | VoiceStateUpdate | Resume
  | Reconnect | RequestGuildMembers | InvalidSession | Hello | HeartbeatAck

text \<open>
  The field \<open>d\<close> of a received frame: \<open>null\<close>, a boolean (InvalidSession), the Hello object
  with its \<open>heartbeat_interval\<close>, or the data object of a dispatch event with its
  \<open>session_id\<close> property when it has one.
\<close>

datatype payload = DNull | DBool bool | DHello nat | DEvent "string option"

record frame =
  frame_op :: GatewayOpcodes
  frame_t :: "string option"
  frame_d :: payload
  frame_s :: "int option"

text \<open>The frames the class sends: heartbeat (last sequence), identify (token, intents), resume
  (token, session id, sequence).\<close>

datatype send_payload =
    SendHeartbeat "int option"
  | SendIdentify string nat
  | SendResume string string int

text \<open>
  The messages of \<open>SOCKET_MESSAGES\<close>, and \<open>Text\<close> for any other string. Where the source
  fills a keyword in (\<open>fill_replacer\<close>, which is not among the source files), the message
  carries the value filled in.
\<close>

datatype socket_message =
    CONNECTED | CLOSED string | NO_SOCKET | DESTROYED | ACK | RECONNECT | INVALID_SESSION
  | RESUME | MAX_RETRIES_EXCEEDED | LISTENER_REPLACED string | JSON_INVALID string
  | PING_SENT | SESSION_CLEARED | SOCKET_CLOSING | Text string

datatype level = Echo | Warn | Fail

datatype store_call = Load | Save string int | Clear

record SocketSettings =
  token :: string
  intents :: nat
  maxRetries :: "int option"
  sessionStore :: bool
  debug :: bool
  warns :: bool

text \<open>An event handler is application code: the model knows its name and whether it throws.\<close>

record EventHandler =
  handler_name :: nat
  handler_throws :: "string option"

datatype readyState = WS_CONNECTING | WS_OPEN | WS_CLOSING | WS_CLOSED

text \<open>
  Who awaits a call. \<open>start\<close> is awaited by the application or by the timer callback of
  \<open>reconnect\<close>; \<open>destroy\<close> is awaited by the application or by \<open>reconnect(clear)\<close>.
\<close>

datatype start_awaiter = StartByCaller | StartByReconnect

datatype destroy_awaiter = DestroyByCaller | DestroyByReconnect bool

text \<open>
  The closures that \<open>start\<close> and \<open>destroy\<close> assign to \<open>ws.onclose\<close>: the one of \<open>start\<close> logs a
  warning, the one of \<open>destroy\<close> resolves the promise \<open>closing\<close>. \<open>CloseResolvesDestroy\<close> is
  that resolver while \<open>destroy\<close> waits on \<open>closing\<close>; \<open>CloseResolvesUnawaited\<close> is the same
  resolver left on the socket after \<open>destroy\<close> has returned \<open>false\<close> from its \<open>catch\<close>, when
  nobody waits on \<open>closing\<close> any more.
\<close>

datatype onclose_handler = CloseWarns | CloseResolvesDestroy destroy_awaiter | CloseResolvesUnawaited

text \<open>
  A \<open>WebSocket\<close> object. \<open>onopen\<close> and \<open>onerror\<close>, when set, are the closures of \<open>start\<close> that
  resolve and reject its promise; \<open>start_pending\<close> says that this promise is not settled.
  \<open>close_raises\<close> is what a call of \<open>close\<close> on this object throws, if anything.
  \<open>close_event_fired\<close> says that the runtime has dispatched the close event.
\<close>

record websocket =
  readyState :: readyState
  onopen :: "start_awaiter option"
  onerror :: "start_awaiter option"
  onclose :: "onclose_handler option"
  onmessage :: bool
  start_pending :: bool
  outbox :: "send_payload list"
  close_calls :: "(nat \<times> socket_message) list"
  close_raises :: "string option"
  close_event_fired :: bool

datatype timer = HeartbeatInterval nat | ReconnectBackoff

datatype outcome =
    StartResolved | StartRejected
  | DestroyResolved bool
  | ReconnectResolved bool | ReconnectRejected
  | Uncaught string

record Socket =
  settings :: SocketSettings
  started :: bool
  lastPing :: int
  lastACK :: int
  heartbeat :: "nat option"
  sessionId :: "string option"
  lastSequence :: "int option"
  reconnecting :: bool
  retries :: nat
  events :: "string \<rightharpoonup> EventHandler"
  ws :: "nat option"
  sockets :: "nat \<rightharpoonup> websocket"
  next_socket :: nat
  now :: int
  timeouts :: "(nat \<times> int \<times> timer) list"
  next_timer :: nat
  loading :: "start_awaiter list"
  logged :: "(level \<times> socket_message) list"
  store_calls :: "store_call list"
  invoked :: "(EventHandler \<times> payload) list"
  settled :: "outcome list"

definition new_Socket :: "SocketSettings \<Rightarrow> int \<Rightarrow> Socket" where
  "new_Socket cfg t0 = \<lparr>settings = cfg, started = False, lastPing = 0, lastACK = 0,
     heartbeat = None, sessionId = None, lastSequence = None, reconnecting = False, retries = 0,
     events = Map.empty, ws = None, sockets = Map.empty, next_socket = 0, now = t0,
     timeouts = [], next_timer = 0, loading = [], logged = [], store_calls = [],
     invoked = [], settled = []\<rparr>"

subsection \<open>The logger, the session store, timers\<close>

definition say :: "level \<Rightarrow> socket_message \<Rightarrow> Socket \<Rightarrow> Socket" where
  "say lvl msg st = st\<lparr>logged := logged st @ [(lvl, msg)]\<rparr>"

definition echo_debug :: "socket_message \<Rightarrow> Socket \<Rightarrow> Socket" where
  "echo_debug msg st = (if debug (settings st) then say Echo msg st else st)"

definition warn_warns :: "socket_message \<Rightarrow> Socket \<Rightarrow> Socket" where
  "warn_warns msg st = (if warns (settings st) then say Warn msg st else st)"

text \<open>\<open>this.settings.sessionStore?.clear()\<close> and \<open>?.save(...)\<close>: nothing without a store.\<close>

definition store_clear :: "Socket \<Rightarrow> Socket" where
  "store_clear st = (if sessionStore (settings st) then st\<lparr>store_calls := store_calls st @ [Clear]\<rparr> else st)"

definition store_save :: "string \<Rightarrow> int \<Rightarrow> Socket \<Rightarrow> Socket" where
  "store_save sid sq st =
     (if sessionStore (settings st) then st\<lparr>store_calls := store_calls st @ [Save sid sq]\<rparr> else st)"

definition settle :: "outcome \<Rightarrow> Socket \<Rightarrow> Socket" where
  "settle out st = st\<lparr>settled := settled st @ [out]\<rparr>"

text \<open>\<open>setTimeout\<close> and \<open>setInterval\<close>: a new handle, and the time at which the callback is due.\<close>

definition set_timer :: "nat \<Rightarrow> timer \<Rightarrow> Socket \<Rightarrow> Socket" where
  "set_timer delay kind st =
     st\<lparr>timeouts := timeouts st @ [(next_timer st, now st + int delay, kind)],
        next_timer := Suc (next_timer st)\<rparr>"

definition clear_timer :: "nat \<Rightarrow> Socket \<Rightarrow> Socket" where
  "clear_timer h st = st\<lparr>timeouts := filter (\<lambda>(i, due, kind). i \<noteq> h) (timeouts st)\<rparr>"

text \<open>JavaScript truthiness of a string or null, and of a number or null or undefined.\<close>

fun truthy_str :: "string option \<Rightarrow> bool" where
  "truthy_str None = False"
| "truthy_str (Some str) = (str \<noteq> [])"

fun truthy_num :: "int option \<Rightarrow> bool" where
  "truthy_num None = False"
| "truthy_num (Some n) = (n \<noteq> 0)"

fun truthy_payload :: "payload \<Rightarrow> bool" where
  "truthy_payload DNull = False"
| "truthy_payload (DBool b) = b"
| "truthy_payload (DHello n) = True"
| "truthy_payload (DEvent sid) = True"

subsection \<open>ping, listen\<close>

definition ping :: "Socket \<Rightarrow> int" where
  "ping st = (let delta = lastACK st - lastPing st in if delta \<ge> 0 then delta else 0)"

definition listen :: "string \<Rightarrow> EventHandler \<Rightarrow> Socket \<Rightarrow> Socket" where
  "listen event handler st =
     (let st1 = (if events st event \<noteq> None then warn_warns (LISTENER_REPLACED event) st else st)
      in st1\<lparr>events := (events st1)(event \<mapsto> handler)\<rparr>)"

subsection \<open>start\<close>

definition new_WebSocket :: websocket where
  "new_WebSocket = \<lparr>readyState = WS_CONNECTING, onopen = None, onerror = None, onclose = None,
     onmessage = False, start_pending = False, outbox = [], close_calls = [],
     close_raises = None, close_event_fired = False\<rparr>"

text \<open>
  What follows the settlement of the promise of \<open>start\<close>. The application's own
  continuation is outside the model. The timer callback of \<open>reconnect\<close> (lines 160 to
  171) resets \<open>_retries\<close> and resolves \<open>true\<close> after a fulfilled \<open>start\<close>, and logs and
  rejects with \<open>false\<close> after a rejected one.
\<close>

definition start_settled :: "start_awaiter \<Rightarrow> string option \<Rightarrow> Socket \<Rightarrow> Socket" where
  "start_settled who err st =
     (let st1 = settle (case err of None \<Rightarrow> StartResolved | Some e \<Rightarrow> StartRejected) st
      in case who of
           StartByCaller \<Rightarrow> st1
         | StartByReconnect \<Rightarrow>
             (case err of
                None \<Rightarrow> settle (ReconnectResolved True) (st1\<lparr>retries := 0, reconnecting := False\<rparr>)
              | Some e \<Rightarrow> settle ReconnectRejected ((say Fail (Text e) st1)\<lparr>reconnecting := False\<rparr>)))"

text \<open>
  The body of \<open>start\<close> after \<open>await this.settings.sessionStore?.load()\<close>: the session is
  restored, and the executor of the promise assigns the four handlers to \<open>this._ws\<close>. When
  \<open>this._ws\<close> is \<open>null\<close> by then, the executor throws and the promise is rejected.
\<close>

definition start_attach :: "start_awaiter \<Rightarrow> (string \<times> int) option \<Rightarrow> Socket \<Rightarrow> Socket" where
  "start_attach who resumeData st =
     (let st1 = (case resumeData of
                   Some (sid, sq) \<Rightarrow> st\<lparr>sessionId := Some sid, lastSequence := Some sq\<rparr>
                 | None \<Rightarrow> st)
      in case ws st1 of
           None \<Rightarrow> start_settled who (Some ''TypeError'') st1
         | Some r \<Rightarrow>
             (case sockets st1 r of
                None \<Rightarrow> start_settled who (Some ''TypeError'') st1
              | Some w \<Rightarrow>
                  st1\<lparr>sockets := (sockets st1)(r \<mapsto>
                        w\<lparr>onopen := Some who, onclose := Some CloseWarns, onerror := Some who,
                          onmessage := True, start_pending := True\<rparr>)\<rparr>))"

text \<open>
  \<open>start\<close> up to its \<open>await\<close>: the flag, the new socket, and the call of \<open>load\<close> when there
  is a session store. The method is suspended at the \<open>await\<close> in either case (without a
  store the awaited value is \<open>undefined\<close>, and the body goes on one turn of the job queue
  later); \<open>loading\<close> holds the suspended calls, oldest first.
\<close>

definition start :: "start_awaiter \<Rightarrow> Socket \<Rightarrow> Socket" where
  "start who st =
     (let st1 = st\<lparr>started := True,
                   sockets := (sockets st)(next_socket st \<mapsto> new_WebSocket),
                   ws := Some (next_socket st),
                   next_socket := Suc (next_socket st)\<rparr>;
          st2 = (if sessionStore (settings st1) then st1\<lparr>store_calls := store_calls st1 @ [Load]\<rparr> else st1)
      in st2\<lparr>loading := loading st2 @ [who]\<rparr>)"

subsection \<open>reconnect, after destroy has returned\<close>

definition backoff :: "nat \<Rightarrow> nat" where
  "backoff n = min (2 ^ n * 1000) 30000"

definition max_retries :: "Socket \<Rightarrow> int" where
  "max_retries st = (case maxRetries (settings st) of Some m \<Rightarrow> m | None \<Rightarrow> 5)"

text \<open>
  Lines 140 to 173 of \<open>reconnect\<close>, the part after \<open>await this.destroy()\<close>. The result is
  \<open>Some False\<close> when the method returns \<open>false\<close>, and \<open>None\<close> when it returns the promise
  that the timer callback will settle.
\<close>

definition reconnect_after_destroy :: "bool \<Rightarrow> Socket \<Rightarrow> bool option \<times> Socket" where
  "reconnect_after_destroy clear st =
     (let st1 = (if clear
                 then echo_debug SESSION_CLEARED (store_clear (st\<lparr>sessionId := None, lastSequence := None\<rparr>))
                 else st);
          n = retries st1;
          st2 = st1\<lparr>retries := Suc n\<rparr>
      in if int n \<ge> max_retries st2
         then (Some False,
               settle (ReconnectResolved False)
                 ((store_clear (say Fail MAX_RETRIES_EXCEEDED st2))\<lparr>reconnecting := False\<rparr>))
         else (None, set_timer (backoff n) ReconnectBackoff st2))"

subsection \<open>destroy\<close>

text \<open>What follows the settlement of the promise of \<open>destroy\<close>: \<open>reconnect\<close> goes on, the
  application's continuation is outside the model.\<close>

definition destroy_settled :: "destroy_awaiter \<Rightarrow> bool \<Rightarrow> Socket \<Rightarrow> Socket" where
  "destroy_settled who result st =
     (let st1 = settle (DestroyResolved result) st
      in case who of
           DestroyByCaller \<Rightarrow> st1
         | DestroyByReconnect clear \<Rightarrow> snd (reconnect_after_destroy clear st1))"

text \<open>
  \<open>destroy\<close> up to \<open>await closing\<close>. The result is \<open>Some b\<close> when the method has returned \<open>b\<close>
  and \<open>None\<close> when it is suspended at \<open>await closing\<close>, which only the closure assigned to
  \<open>ws.onclose\<close> can end. When \<open>close\<close> throws, the \<open>catch\<close> logs and returns \<open>false\<close>: the
  resolver stays on \<open>ws.onclose\<close>, the other handlers and \<open>_ws\<close> are as they were, and
  nothing waits for the close event. A reference that names no object does not occur
  (every reference comes from \<open>new WebSocket\<close>); the model treats it as an error thrown
  in the \<open>try\<close> block.
\<close>

definition destroy :: "destroy_awaiter \<Rightarrow> Socket \<Rightarrow> bool option \<times> Socket" where
  "destroy who st =
     (let st1 = (case heartbeat st of
                   Some h \<Rightarrow> (clear_timer h st)\<lparr>heartbeat := None\<rparr>
                 | None \<Rightarrow> st)
      in case ws st1 of
           None \<Rightarrow> (Some True, st1)
         | Some r \<Rightarrow>
             (case sockets st1 r of
                None \<Rightarrow> (Some False, say Fail (Text ''TypeError'') st1)
              | Some w \<Rightarrow>
                  (let w1 = w\<lparr>onclose := Some (CloseResolvesDestroy who)\<rparr>
                   in if readyState w1 = WS_OPEN \<or> readyState w1 = WS_CONNECTING
                      then (let st2 = echo_debug SOCKET_CLOSING st1
                            in case close_raises w1 of
                                 Some err \<Rightarrow>
                                   (Some False,
                                    say Fail (Text err)
                                      (st2\<lparr>sockets := (sockets st2)(r \<mapsto>
                                             w1\<lparr>onclose := Some CloseResolvesUnawaited\<rparr>)\<rparr>))
                               | None \<Rightarrow>
                                   (None, st2\<lparr>sockets := (sockets st2)(r \<mapsto>
                                            w1\<lparr>readyState := WS_CLOSING,
                                               close_calls := close_calls w1 @ [(1000, DESTROYED)],
                                               onopen := None, onmessage := False, onerror := None\<rparr>),
                                          ws := None\<rparr>))
                      else (None, st1\<lparr>sockets := (sockets st1)(r \<mapsto>
                                       w1\<lparr>onopen := None, onmessage := False, onerror := None\<rparr>),
                                     ws := None\<rparr>))))"

text \<open>\<open>destroy\<close> after \<open>await closing\<close>: the debug line, and \<open>return true\<close>.\<close>

definition destroy_resumed :: "destroy_awaiter \<Rightarrow> Socket \<Rightarrow> Socket" where
  "destroy_resumed who st = destroy_settled who True (echo_debug DESTROYED st)"

text \<open>A call of \<open>destroy\<close> with what follows when it returns at once.\<close>

definition call_destroy :: "destroy_awaiter \<Rightarrow> Socket \<Rightarrow> Socket" where
  "call_destroy who st =
     (case destroy who st of
        (Some result, st') \<Rightarrow> destroy_settled who result st'
      | (None, st') \<Rightarrow> st')"

subsection \<open>reconnect\<close>

text \<open>
  \<open>reconnect(clear)\<close>: the guard, the flag, \<open>await this.destroy()\<close>, and the rest when
  \<open>destroy\<close> returns at once (the \<open>await\<close> of a settled promise resumes before the event
  loop runs any other callback). The result is \<open>Some False\<close> when the method has
  returned \<open>false\<close>, \<open>None\<close> while its promise is pending.
\<close>

definition reconnect :: "bool \<Rightarrow> Socket \<Rightarrow> bool option \<times> Socket" where
  "reconnect clear st =
     (if reconnecting st then (Some False, settle (ReconnectResolved False) st)
      else (case destroy (DestroyByReconnect clear) (st\<lparr>reconnecting := True\<rparr>) of
              (Some result, st') \<Rightarrow> reconnect_after_destroy clear (settle (DestroyResolved result) st')
            | (None, st') \<Rightarrow> (None, st')))"

subsection \<open>_handleMessage\<close>

text \<open>
  \<open>this._ws!.send(...)\<close>. \<open>Inl\<close> is the error thrown: a TypeError when \<open>this._ws\<close> is \<open>null\<close>,
  and the InvalidStateError of \<open>send\<close> on a socket that is still connecting. An open socket
  takes the frame (\<open>outbox\<close>); a closing or closed one drops it without an error.
\<close>

definition ws_send :: "send_payload \<Rightarrow> Socket \<Rightarrow> string + Socket" where
  "ws_send p st =
     (case ws st of
        None \<Rightarrow> Inl ''TypeError''
      | Some r \<Rightarrow>
          (case sockets st r of
             None \<Rightarrow> Inl ''TypeError''
           | Some w \<Rightarrow>
               (case readyState w of
                  WS_CONNECTING \<Rightarrow> Inl ''InvalidStateError''
                | WS_OPEN \<Rightarrow> Inr (st\<lparr>sockets := (sockets st)(r \<mapsto> w\<lparr>outbox := outbox w @ [p]\<rparr>)\<rparr>)
                | WS_CLOSING \<Rightarrow> Inr st
                | WS_CLOSED \<Rightarrow> Inr st)))"

definition send_or_throw :: "send_payload \<Rightarrow> Socket \<Rightarrow> Socket" where
  "send_or_throw p st = (case ws_send p st of Inr st' \<Rightarrow> st' | Inl err \<Rightarrow> settle (Uncaught err) st)"

text \<open>Lines 242 to 250: the sequence number of the frame.\<close>

definition note_sequence :: "int option \<Rightarrow> Socket \<Rightarrow> Socket" where
  "note_sequence sq st =
     (case sq of
        Some n \<Rightarrow>
          (if truthy_num sq
           then (let st1 = st\<lparr>lastSequence := Some n\<rparr>
                 in case sessionId st1 of
                      Some sid \<Rightarrow> (if truthy_str (sessionId st1) then store_save sid n st1 else st1)
                    | None \<Rightarrow> st1)
           else st)
      | None \<Rightarrow> st)"

text \<open>The callback of the heartbeat interval.\<close>

definition heartbeat_tick :: "Socket \<Rightarrow> Socket" where
  "heartbeat_tick st =
     (let st1 = st\<lparr>lastPing := now st\<rparr>
      in case ws_send (SendHeartbeat (lastSequence st1)) st1 of
           Inl err \<Rightarrow> settle (Uncaught err) st1
         | Inr st2 \<Rightarrow> echo_debug PING_SENT st2)"

definition on_Hello :: "payload \<Rightarrow> Socket \<Rightarrow> Socket" where
  "on_Hello dd st =
     (let st1 = st\<lparr>lastPing := now st\<rparr>
      in case dd of
           DNull \<Rightarrow> settle (Uncaught ''TypeError'') st1
         | _ \<Rightarrow>
           (let interval = (case dd of DHello n \<Rightarrow> n | _ \<Rightarrow> 0);
                st2 = (set_timer interval (HeartbeatInterval interval) st1)\<lparr>heartbeat := Some (next_timer st1)\<rparr>
            in send_or_throw (SendIdentify (token (settings st2)) (intents (settings st2))) st2))"

definition on_InvalidSession :: "payload \<Rightarrow> Socket \<Rightarrow> Socket" where
  "on_InvalidSession dd st =
     (let st1 = warn_warns INVALID_SESSION st
      in case (sessionId st1, lastSequence st1) of
           (Some sid, Some sq) \<Rightarrow>
             (if truthy_payload dd \<and> truthy_str (Some sid)
              then send_or_throw (SendResume (token (settings st1)) sid sq) (echo_debug RESUME st1)
              else snd (reconnect True (echo_debug RECONNECT st1)))
         | _ \<Rightarrow> snd (reconnect True (echo_debug RECONNECT st1)))"

definition call_handler :: "string \<Rightarrow> payload \<Rightarrow> Socket \<Rightarrow> Socket" where
  "call_handler name dd st =
     (case events st name of
        None \<Rightarrow> st
      | Some handler \<Rightarrow>
          (let st1 = st\<lparr>invoked := invoked st @ [(handler, dd)]\<rparr>
           in case handler_throws handler of
                None \<Rightarrow> st1
              | Some err \<Rightarrow> say Fail (Text (''Error in event handler '' @ name @ '': '' @ err)) st1))"

definition on_Dispatch :: "string option \<Rightarrow> payload \<Rightarrow> Socket \<Rightarrow> Socket" where
  "on_Dispatch tt dd st =
     (if tt = Some ''READY'' \<and> dd = DNull then settle (Uncaught ''TypeError'') st
      else (let st1 = (case dd of
                         DEvent (Some sid) \<Rightarrow>
                           (if tt = Some ''READY'' \<and> truthy_str (Some sid)
                            then store_save sid (case lastSequence st of Some n \<Rightarrow> n | None \<Rightarrow> 0)
                                   (st\<lparr>sessionId := Some sid\<rparr>)
                            else st)
                       | _ \<Rightarrow> st)
            in case tt of
                 Some name \<Rightarrow> (if truthy_str tt then call_handler name dd st1 else st1)
               | None \<Rightarrow> st1))"

text \<open>
  \<open>_handleMessage\<close>. \<open>Inl raw\<close> is a message whose data \<open>JSON.parse\<close> rejects, \<open>Inr f\<close> one
  that parses to the frame \<open>f\<close>. An error thrown in the body rejects the promise of this
  \<open>async\<close> method, which nobody handles: it is recorded as \<open>Uncaught\<close>.
\<close>

definition handleMessage :: "string + frame \<Rightarrow> Socket \<Rightarrow> Socket" where
  "handleMessage msg st =
     (case msg of
        Inl raw \<Rightarrow> say Fail (JSON_INVALID raw) st
      | Inr f \<Rightarrow>
          (let st1 = note_sequence (frame_s f) st
           in case frame_op f of
                Hello \<Rightarrow> on_Hello (frame_d f) st1
              | HeartbeatAck \<Rightarrow> echo_debug ACK (st1\<lparr>lastACK := now st1\<rparr>)
              | Reconnect \<Rightarrow> snd (reconnect False (echo_debug RECONNECT st1))
              | InvalidSession \<Rightarrow> on_InvalidSession (frame_d f) st1
              | Dispatch \<Rightarrow> on_Dispatch (frame_t f) (frame_d f) st1
              | _ \<Rightarrow> st1))"

subsection \<open>The events of the runtime\<close>

text \<open>
  What the runtime can do to a socket object. Of the \<open>WebSocket\<close> interface the model
  takes this: the open event comes to a connecting socket, messages to an open one, and
  the close event is dispatched once, when the socket becomes closed; after it the object
  receives no further event. An error event is the failure of the connection and leaves
  the socket closed, with the close event still to come.
\<close>

datatype ws_event = WsOpen | WsMessage "string + frame" | WsError string | WsClose string

text \<open>The \<open>onopen\<close> closure of \<open>start\<close>; \<open>resolve\<close> acts on the promise only while it is pending.\<close>

definition on_open :: "start_awaiter \<Rightarrow> nat \<Rightarrow> Socket \<Rightarrow> Socket" where
  "on_open who r st =
     (let st1 = echo_debug CONNECTED (st\<lparr>lastACK := now st\<rparr>)
      in case sockets st1 r of
           None \<Rightarrow> st1
         | Some w \<Rightarrow>
             (if start_pending w
              then start_settled who None (st1\<lparr>sockets := (sockets st1)(r \<mapsto> w\<lparr>start_pending := False\<rparr>)\<rparr>)
              else st1))"

text \<open>
  The \<open>onerror\<close> closure of \<open>start\<close>, like \<open>onopen\<close> above. \<open>resolve\<close> and \<open>reject\<close> act on the promise
  only while it is pending. \<open>onerror\<close> rejects with the object that \<open>log.fail\<close> returns,
  which \<open>String\<close> turns into \<open>[object Object]\<close>.
\<close>

definition on_error :: "start_awaiter \<Rightarrow> nat \<Rightarrow> string \<Rightarrow> Socket \<Rightarrow> Socket" where
  "on_error who r msg st =
     (let st1 = say Fail (Text msg) st
      in case sockets st1 r of
           None \<Rightarrow> st1
         | Some w \<Rightarrow>
             (if start_pending w
              then start_settled who (Some ''[object Object]'')
                     (st1\<lparr>sockets := (sockets st1)(r \<mapsto> w\<lparr>start_pending := False\<rparr>)\<rparr>)
              else st1))"

definition on_close :: "onclose_handler \<Rightarrow> string \<Rightarrow> Socket \<Rightarrow> Socket" where
  "on_close h reason st =
     (case h of
        CloseWarns \<Rightarrow> warn_warns (CLOSED reason) st
      | CloseResolvesDestroy who \<Rightarrow> destroy_resumed who st
      | CloseResolvesUnawaited \<Rightarrow> st)"

definition deliver :: "nat \<Rightarrow> ws_event \<Rightarrow> Socket \<Rightarrow> Socket option" where
  "deliver r ev st =
     (case sockets st r of
        None \<Rightarrow> None
      | Some w \<Rightarrow>
          (case ev of
             WsOpen \<Rightarrow>
               (if readyState w = WS_CONNECTING
                then (let st1 = st\<lparr>sockets := (sockets st)(r \<mapsto> w\<lparr>readyState := WS_OPEN\<rparr>)\<rparr>
                      in Some (case onopen w of Some who \<Rightarrow> on_open who r st1 | None \<Rightarrow> st1))
                else None)
           | WsMessage msg \<Rightarrow>
               (if readyState w = WS_OPEN
                then Some (if onmessage w then handleMessage msg st else st)
                else None)
           | WsError msg \<Rightarrow>
               (if \<not> close_event_fired w
                then (let st1 = st\<lparr>sockets := (sockets st)(r \<mapsto> w\<lparr>readyState := WS_CLOSED\<rparr>)\<rparr>
                      in Some (case onerror w of Some who \<Rightarrow> on_error who r msg st1 | None \<Rightarrow> st1))
                else None)
           | WsClose reason \<Rightarrow>
               (if \<not> close_event_fired w
                then (let st1 = st\<lparr>sockets := (sockets st)(r \<mapsto>
                                    w\<lparr>readyState := WS_CLOSED, close_event_fired := True\<rparr>)\<rparr>
                      in Some (case onclose w of Some h \<Rightarrow> on_close h reason st1 | None \<Rightarrow> st1))
                else None)))"

text \<open>A sequence of runtime events, each on the socket object it names.\<close>

fun deliver_all :: "(nat \<times> ws_event) list \<Rightarrow> Socket \<Rightarrow> Socket option" where
  "deliver_all [] st = Some st"
| "deliver_all ((r, ev) # evs) st =
     (case deliver r ev st of None \<Rightarrow> None | Some st' \<Rightarrow> deliver_all evs st')"

text \<open>
  The callback of the \<open>i\<close>-th timer, once it is due: the heartbeat stays armed, the
  backoff timer of \<open>reconnect\<close> is spent and calls \<open>start\<close>, which it awaits.
\<close>

definition timer_fires :: "nat \<Rightarrow> Socket \<Rightarrow> Socket option" where
  "timer_fires i st =
     (if i < length (timeouts st)
      then (case timeouts st ! i of
              (h, due, kind) \<Rightarrow>
                (if due \<le> now st
                 then (case kind of
                         HeartbeatInterval n \<Rightarrow>
                           Some (heartbeat_tick (st\<lparr>timeouts := (timeouts st)[i := (h, due + int n, kind)]\<rparr>))
                       | ReconnectBackoff \<Rightarrow>
                           Some (start StartByReconnect
                                  (st\<lparr>timeouts := take i (timeouts st) @ drop (Suc i) (timeouts st)\<rparr>)))
                 else None))
      else None)"

text \<open>
  The oldest suspended \<open>start\<close> goes on after its \<open>await\<close>, with what \<open>load\<close> answered; without
  a session store the awaited value is \<open>undefined\<close>, so there is no session data.
\<close>

definition load_done :: "(string \<times> int) option \<Rightarrow> Socket \<Rightarrow> Socket option" where
  "load_done resumeData st =
     (case loading st of
        [] \<Rightarrow> None
      | who # rest \<Rightarrow>
          (if \<not> sessionStore (settings st) \<and> resumeData \<noteq> None then None
           else Some (start_attach who resumeData (st\<lparr>loading := rest\<rparr>))))"

subsection \<open>Runs\<close>

text \<open>
  What can happen next to a connection: a call of the application, an event of the
  runtime on a socket object, a timer callback, the resumption of a suspended \<open>start\<close>,
  the passing of time. \<open>None\<close> when the step cannot happen in that state.
\<close>

datatype action =
    CallStart
  | CallDestroy
  | CallReconnect bool
  | Runtime nat ws_event
  | TimerFires nat
  | LoadDone "(string \<times> int) option"
  | Advance nat

fun perform :: "action \<Rightarrow> Socket \<Rightarrow> Socket option" where
  "perform CallStart st = Some (start StartByCaller st)"
| "perform CallDestroy st = Some (call_destroy DestroyByCaller st)"
| "perform (CallReconnect clear) st = Some (snd (reconnect clear st))"
| "perform (Runtime r ev) st = deliver r ev st"
| "perform (TimerFires i) st = timer_fires i st"
| "perform (LoadDone resumeData) st = load_done resumeData st"
| "perform (Advance ms) st = Some (st\<lparr>now := now st + int ms\<rparr>)"

fun perform_all :: "action list \<Rightarrow> Socket \<Rightarrow> Socket option" where
  "perform_all [] st = Some st"
| "perform_all (a # acts) st = (case perform a st of None \<Rightarrow> None | Some st' \<Rightarrow> perform_all acts st')"

text \<open>The state after a run, for runs that can happen (otherwise the state it started from).\<close>

definition performed :: "action list \<Rightarrow> Socket \<Rightarrow> Socket" where
  "performed acts st = (case perform_all acts st of Some st' \<Rightarrow> st' | None \<Rightarrow> st)"

subsection \<open>Predicates and example states used by the theorems\<close>

text \<open>Settings like those of the \<open>Client\<close>: no \<open>maxRetries\<close>, no \<open>debug\<close>, no \<open>warns\<close>, and a session store.\<close>

definition demo_settings :: SocketSettings where
  "demo_settings = \<lparr>token = ''Bot abc'', intents = 513, maxRetries = None, sessionStore = True,
     debug = False, warns = False\<rparr>"

text \<open>What \<open>reconnect\<close> leaves behind when it gives up, compared with the state \<open>a\<close> before the check.\<close>

definition gave_up :: "Socket \<Rightarrow> Socket \<Rightarrow> bool" where
  "gave_up a b =
     (timeouts b = timeouts a \<and> loading b = loading a \<and> sockets b = sockets a \<and> ws b = ws a \<and>
      \<not> reconnecting b \<and>
      last (logged b) = (Fail, MAX_RETRIES_EXCEEDED) \<and>
      (if sessionStore (settings a) then last (store_calls b) = Clear else store_calls b = store_calls a) \<and>
      last (settled b) = ReconnectResolved False)"

text \<open>
  One failed attempt to reconnect: the backoff passes, the timer callback calls \<open>start\<close>,
  \<open>load\<close> answers with no session, and the new socket \<open>r\<close> fails with an error event.
\<close>

definition failed_attempt :: "nat \<Rightarrow> nat \<Rightarrow> action list" where
  "failed_attempt delay r = [Advance delay, TimerFires 0, LoadDone None, Runtime r (WsError ''refused'')]"

text \<open>
  A connection with the default settings on which five attempts in a row have failed. The
  first \<open>reconnect\<close> finds no socket. Each later one is called right after the error event
  of the socket that failed, before its close event, so \<open>destroy\<close> waits for that close
  event and \<open>reconnect\<close> goes on when it comes. \<open>demo_failures\<close> is that run and
  \<open>demo_failed\<close> the state after the fifth failure; in \<open>demo_failed_closed\<close> the close event of
  the last socket has come as well. \<open>demo_retrying\<close> is the state in the middle of the first
  attempt, when the new socket is connecting.
\<close>

definition demo_failures :: "action list" where
  "demo_failures =
     [CallReconnect False] @ failed_attempt 1000 0 @
     [CallReconnect False, Runtime 0 (WsClose [])] @ failed_attempt 2000 1 @
     [CallReconnect False, Runtime 1 (WsClose [])] @ failed_attempt 4000 2 @
     [CallReconnect False, Runtime 2 (WsClose [])] @ failed_attempt 8000 3 @
     [CallReconnect False, Runtime 3 (WsClose [])] @ failed_attempt 16000 4"

definition demo_failed :: Socket where
  "demo_failed = performed demo_failures (new_Socket demo_settings 0)"

definition demo_failed_closed :: Socket where
  "demo_failed_closed = performed [Runtime 4 (WsClose [])] demo_failed"

definition demo_retrying :: Socket where
  "demo_retrying =
     performed [CallReconnect False, Advance 1000, TimerFires 0, LoadDone None] (new_Socket demo_settings 0)"

text \<open>A connection with a session, and a dispatch frame whose sequence number is 0.\<close>

definition demo_session :: Socket where
  "demo_session = (new_Socket demo_settings 0)\<lparr>sessionId := Some ''abc'', lastSequence := Some 41\<rparr>"

definition demo_frame :: "int \<Rightarrow> frame" where
  "demo_frame n = \<lparr>frame_op = Dispatch, frame_t = Some ''MESSAGE_CREATE'', frame_d = DEvent None,
     frame_s = Some n\<rparr>"

text \<open>
  A connection that has loaded the session \<open>abc\<close> with sequence 41 from its store, whose
  socket has opened and received the Hello frame; InvalidSession frames; and the run in
  which an InvalidSession frame that is not resumable is followed by the close event of
  the socket, the backoff, the timer callback, the answer of \<open>load\<close>, and the open event and
  the Hello frame of the new socket.
\<close>

definition demo_hello :: frame where
  "demo_hello = \<lparr>frame_op = Hello, frame_t = None, frame_d = DHello 41250, frame_s = None\<rparr>"

definition demo_open :: Socket where
  "demo_open =
     performed [CallStart, LoadDone (Some (''abc'', 41)), Runtime 0 WsOpen, Runtime 0 (WsMessage (Inr demo_hello))]
       (new_Socket demo_settings 0)"

definition demo_invalid :: "bool \<Rightarrow> frame" where
  "demo_invalid resumable = \<lparr>frame_op = InvalidSession, frame_t = None, frame_d = DBool resumable,
     frame_s = None\<rparr>"

definition demo_reidentify :: "action list" where
  "demo_reidentify =
     [Runtime 0 (WsMessage (Inr (demo_invalid False))), Runtime 0 (WsClose []), Advance 1000, TimerFires 0,
      LoadDone None, Runtime 1 WsOpen, Runtime 1 (WsMessage (Inr demo_hello))]"

text \<open>Two handlers for one event, on a connection configured without \<open>warns\<close>.\<close>

definition demo_handler :: "nat \<Rightarrow> EventHandler" where
  "demo_handler i = \<lparr>handler_name = i, handler_throws = None\<rparr>"

text \<open>The settlements of promises of \<open>start\<close> in the record of settlements.\<close>

fun is_start_outcome :: "outcome \<Rightarrow> bool" where
  "is_start_outcome StartResolved = True"
| "is_start_outcome StartRejected = True"
| "is_start_outcome _ = False"

definition start_outcomes :: "outcome list \<Rightarrow> outcome list" where
  "start_outcomes outs = filter is_start_outcome outs"

text \<open>A socket object from which \<open>destroy\<close> has taken the handlers of a pending \<open>start\<close>.\<close>

definition detached :: "nat \<Rightarrow> Socket \<Rightarrow> bool" where
  "detached r st =
     (case sockets st r of
        None \<Rightarrow> False
      | Some w \<Rightarrow> onopen w = None \<and> onerror w = None \<and> \<not> onmessage w \<and> start_pending w)"

text \<open>A connection configured without a session store, after \<open>start\<close>: the socket is connecting
  and the promise of \<open>start\<close> is pending. The same connection after the socket has opened
  and the server has closed it.\<close>

definition demo_started :: Socket where
  "demo_started = performed [CallStart, LoadDone None] (new_Socket (demo_settings\<lparr>sessionStore := False\<rparr>) 0)"

definition demo_closed :: Socket where
  "demo_closed =
     (case deliver_all [(0, WsOpen), (0, WsClose ''gone'')] demo_started of
        Some st \<Rightarrow> st
      | None \<Rightarrow> demo_started)"

text \<open>The same connection after the socket has opened and a Hello frame has started the heartbeat.\<close>

definition demo_beating :: Socket where
  "demo_beating =
     (case deliver_all [(0, WsOpen), (0, WsMessage (Inr \<lparr>frame_op = Hello, frame_t = None,
              frame_d = DHello 41250, frame_s = None\<rparr>))] demo_started of
        Some st \<Rightarrow> st
      | None \<Rightarrow> demo_started)"

section \<open>Theorems about Rest\<close>

subsection \<open>One job in flight, first in first out\<close>

lemma queued_append: "queued key (h @ h') = queued key h @ queued key h'"
  by (induction key h rule: queued.induct) auto

lemma begun_append: "begun key (h @ h') = begun key h @ begun key h'"
  by (induction key h rule: begun.induct) auto

lemma windows_append:
  "windows key cur (h @ h') = (case windows key cur h of None \<Rightarrow> None | Some c \<Rightarrow> windows key c h')"
  by (induction key cur h rule: windows.induct) (auto split: option.splits)

lemma runBucket_handover: "handover key R \<Longrightarrow> bucket_inv key (runBucket key R)"
  unfolding handover_def bucket_inv_def runBucket_def log_ok_def drivers_def timers_of_def in_flight_def
    bucket_queue_def may_pop_def
  by (auto split: option.splits list.splits simp: queued_append begun_append windows_append)

lemma runBucket_other: "key' \<noteq> key \<Longrightarrow> bucket_inv key' R \<Longrightarrow> bucket_inv key' (runBucket key R)"
  unfolding bucket_inv_def runBucket_def log_ok_def drivers_def timers_of_def in_flight_def
    bucket_queue_def may_pop_def
  by (auto split: option.splits list.splits simp: queued_append begun_append windows_append)


lemma find_job_in_flight:
  "find_job j rs = Some (k, p) \<Longrightarrow> j \<in> set (map fst (filter (\<lambda>(j, k', p). k' = k) rs))"
  by (induction j rs rule: find_job.induct) (auto split: if_splits)

lemma set_phase_in_flight:
  "map fst (filter (\<lambda>(j, k', p). k' = key) (set_phase j q rs)) = map fst (filter (\<lambda>(j, k', p). k' = key) rs)"
  by (induction j q rs rule: set_phase.induct) auto

lemma drop_job_other:
  "find_job j rs = Some (k, p) \<Longrightarrow> key \<noteq> k \<Longrightarrow>
   filter (\<lambda>(j, k', p). k' = key) (drop_job j rs) = filter (\<lambda>(j, k', p). k' = key) rs"
  by (induction j rs rule: drop_job.induct) (auto split: if_splits)

lemma drop_job_same:
  "find_job j rs = Some (k, p) \<Longrightarrow>
   Suc (length (filter (\<lambda>(j, k', p). k' = k) (drop_job j rs))) = length (filter (\<lambda>(j, k', p). k' = k) rs)"
  by (induction j rs rule: drop_job.induct) (auto split: if_splits)

lemma in_flight_set_phase [simp]:
  "in_flight key (R\<lparr>running := set_phase j q (running R)\<rparr>) = in_flight key R"
  by (simp add: in_flight_def set_phase_in_flight)

lemma single_in_flight:
  assumes "find_job j (running R) = Some (k, p)" "length (in_flight k R) \<le> 1"
  shows "in_flight k R = [j]"
proof -
  have "j \<in> set (in_flight k R)"
    using find_job_in_flight [OF assms(1)] by (simp add: in_flight_def)
  with assms(2) show ?thesis
    by (cases "in_flight k R") auto
qed

lemma bucket_inv_single: "bucket_inv key R \<Longrightarrow> length (in_flight key R) \<le> 1"
  by (auto simp: bucket_inv_def drivers_def split: option.splits if_splits)

lemma request_inv:
  assumes "\<And>key. bucket_inv key R"
  shows "bucket_inv key (request m route R)"
proof -
  define k where "k = getBucketKey (Method_str m) route"
  define b where "b = (case buckets R k of Some b \<Rightarrow> b
                    | None \<Rightarrow> \<lparr>resetAt = 0, remaining = 1, queue = [], isRunning = False\<rparr>)"
  define R' where "R' = R\<lparr>next_job := Suc (next_job R),
       buckets := (buckets R)(k \<mapsto> b\<lparr>queue := queue b @ [next_job R]\<rparr>),
       history := history R @ [Queued k (next_job R)]\<rparr>"
  have req: "request m route R = (if \<not> isRunning b then runBucket k R' else R')"
    by (simp add: request_def queueRequest_def Let_def k_def b_def R'_def)
  have other: "bucket_inv key' R'" if "key' \<noteq> k" for key'
    using assms [of key'] that
    by (auto simp: bucket_inv_def R'_def log_ok_def drivers_def timers_of_def in_flight_def
        bucket_queue_def queued_append begun_append windows_append split: option.splits)
  have logk: "log_ok k R'"
    using assms [of k]
    by (auto simp: bucket_inv_def R'_def log_ok_def drivers_def timers_of_def in_flight_def
        bucket_queue_def queued_append begun_append windows_append b_def split: option.splits)
  show ?thesis
  proof (cases "isRunning b")
    case True
    then have "bucket_inv k R'"
      using assms [of k] logk
      by (auto simp: bucket_inv_def R'_def drivers_def timers_of_def in_flight_def b_def
          split: option.splits)
    with other True req show ?thesis by (cases "key = k") auto
  next
    case False
    then have "handover k R'"
      using assms [of k] logk
      by (auto simp: bucket_inv_def handover_def R'_def drivers_def timers_of_def in_flight_def b_def
          may_pop_def split: option.splits)
    then have "bucket_inv k (runBucket k R')" by (rule runBucket_handover)
    moreover have "bucket_inv key' (runBucket k R')" if "key' \<noteq> k" for key'
      using runBucket_other [OF that other [OF that]] .
    ultimately show ?thesis using False req by (cases "key = k") auto
  qed
qed

lemma tick_inv:
  assumes "bucket_inv key R" "tick d R = Some R'"
  shows "bucket_inv key R'"
  using assms
  by (auto simp: tick_def bucket_inv_def log_ok_def drivers_def timers_of_def in_flight_def
      bucket_queue_def may_pop_def split: option.splits if_splits)


lemma timers_remove_other:
  assumes "i < length ts" "snd (ts ! i) \<noteq> key"
  shows "filter (\<lambda>(d, k). k = key) (take i ts @ drop (Suc i) ts) = filter (\<lambda>(d, k). k = key) ts"
proof -
  have "ts = take i ts @ ts ! i # drop (Suc i) ts"
    using assms(1) by (simp add: id_take_nth_drop)
  then have "filter (\<lambda>(d, k). k = key) ts
      = filter (\<lambda>(d, k). k = key) (take i ts @ ts ! i # drop (Suc i) ts)" by simp
  also have "\<dots> = filter (\<lambda>(d, k). k = key) (take i ts @ drop (Suc i) ts)"
    using assms(2) by (cases "ts ! i") auto
  finally show ?thesis by simp
qed

lemma timers_remove_same:
  assumes "i < length ts"
  shows "Suc (length (filter (\<lambda>(d, k). k = snd (ts ! i)) (take i ts @ drop (Suc i) ts)))
       = length (filter (\<lambda>(d, k). k = snd (ts ! i)) ts)"
proof -
  have "ts = take i ts @ ts ! i # drop (Suc i) ts"
    using assms(1) by (simp add: id_take_nth_drop)
  then have "length (filter (\<lambda>(d, k). k = snd (ts ! i)) ts)
      = length (filter (\<lambda>(d, k). k = snd (ts ! i)) (take i ts @ ts ! i # drop (Suc i) ts))" by simp
  also have "\<dots> = Suc (length (filter (\<lambda>(d, k). k = snd (ts ! i)) (take i ts @ drop (Suc i) ts)))"
    by (cases "ts ! i") auto
  finally show ?thesis by simp
qed

lemma timeout_inv:
  assumes inv: "\<And>key. bucket_inv key R" and fired: "timeout i R = Some R'"
  shows "bucket_inv key R'"
proof -
  define k where "k = snd (timers R ! i)"
  define R1 where "R1 = R\<lparr>timers := take i (timers R) @ drop (Suc i) (timers R)\<rparr>"
  from fired have i: "i < length (timers R)" and R': "R' = runBucket k R1"
    by (auto simp: timeout_def k_def R1_def split: if_splits)
  have other: "bucket_inv key' R1" if "key' \<noteq> k" for key'
    using inv [of key'] that timers_remove_other [OF i, of key']
    by (auto simp: bucket_inv_def R1_def log_ok_def drivers_def timers_of_def in_flight_def
        bucket_queue_def k_def split: option.splits)
  have "Suc (length (timers_of k R1)) = length (timers_of k R)"
    using timers_remove_same [OF i] by (simp add: timers_of_def R1_def k_def)
  moreover have "in_flight k R1 = in_flight k R"
    by (simp add: in_flight_def R1_def)
  ultimately have drv: "Suc (drivers k R1) = drivers k R"
    by (simp add: drivers_def)
  have same: "log_ok k R1 = log_ok k R" "buckets R1 = buckets R"
    by (simp_all add: log_ok_def R1_def in_flight_def bucket_queue_def)
  have "handover k R1"
    using inv [of k] drv unfolding bucket_inv_def handover_def same
    by (auto split: option.splits if_splits)
  then have "bucket_inv k (runBucket k R1)" by (rule runBucket_handover)
  moreover have "bucket_inv key' (runBucket k R1)" if "key' \<noteq> k" for key'
    using runBucket_other [OF that other [OF that]] .
  ultimately show ?thesis using R' by (cases "key = k") auto
qed

lemma in_flight_phase:
  "running R' = set_phase j q (running R) \<Longrightarrow> in_flight key R' = in_flight key R"
  by (simp add: in_flight_def set_phase_in_flight)

lemma fetch_resolved_inv:
  assumes inv: "\<And>key. bucket_inv key R" and fired: "fetch_resolved j res R = Some R'"
  shows "bucket_inv key R'"
proof -
  from fired obtain k where found: "find_job j (running R) = Some (k, Fetching)"
    by (auto simp: fetch_resolved_def split: option.splits phase.splits)
  have "j \<in> set (in_flight k R)"
    using find_job_in_flight [OF found] by (simp add: in_flight_def)
  then have pos: "0 < drivers k R"
    by (cases "in_flight k R") (auto simp: drivers_def)
  from fired found have run': "running R' = set_phase j (Parsing res) (running R)"
    and same: "timers R' = timers R" "history R' = history R" "clock R' = clock R"
    and bk: "buckets R' k = map_option (\<lambda>b. b\<lparr>remaining := (case rl_remaining res of Some n \<Rightarrow> n | None \<Rightarrow> 1),
                 resetAt := (case rl_reset res of Some x \<Rightarrow> x | None \<Rightarrow> 0) * 1000\<rparr>) (buckets R k)"
    and bo: "\<And>key'. key' \<noteq> k \<Longrightarrow> buckets R' key' = buckets R key'"
    by (auto simp: fetch_resolved_def Let_def split: option.splits)
  have fl: "in_flight key' R' = in_flight key' R" for key'
    using in_flight_phase [OF run'] .
  have drv: "drivers key' R' = drivers key' R" for key'
    by (simp add: drivers_def fl timers_of_def same)
  show ?thesis
  proof (cases "key = k")
    case True
    with inv [of k] pos bk show ?thesis
      unfolding bucket_inv_def log_ok_def drv fl same bucket_queue_def
      by (auto split: option.splits if_splits)
  next
    case False
    with inv [of key] bo [of key] show ?thesis
      unfolding bucket_inv_def log_ok_def drv fl same bucket_queue_def
      by (auto split: option.splits if_splits)
  qed
qed

lemma job_ends_inv:
  assumes inv: "\<And>key. bucket_inv key R" and found: "find_job j (running R) = Some (k, p)"
    and R1: "running R1 = drop_job j (running R)" "history R1 = history R @ [End k j (clock R)]"
       "buckets R1 = buckets R" "timers R1 = timers R" "clock R1 = clock R"
  shows "bucket_inv key (runBucket k R1)"
proof -
  have one: "in_flight k R = [j]"
    using single_in_flight [OF found bucket_inv_single [OF inv]] .
  from one have "length (filter (\<lambda>(j, k', p). k' = k) (running R)) = 1"
    by (metis in_flight_def length_map length_Cons list.size(3) One_nat_def)
  with drop_job_same [OF found] have "filter (\<lambda>(j, k', p). k' = k) (drop_job j (running R)) = []"
    by simp
  then have gone: "in_flight k R1 = []"
    by (simp add: in_flight_def R1)
  have other: "bucket_inv key' R1" if "key' \<noteq> k" for key'
    using inv [of key'] that drop_job_other [OF found that]
    by (auto simp: bucket_inv_def R1 log_ok_def drivers_def timers_of_def in_flight_def
        bucket_queue_def queued_append begun_append windows_append split: option.splits)
  have "handover k R1"
    using inv [of k] one gone
    by (auto simp: bucket_inv_def handover_def R1 log_ok_def drivers_def timers_of_def
        bucket_queue_def queued_append begun_append windows_append split: option.splits if_splits)
  then have "bucket_inv k (runBucket k R1)" by (rule runBucket_handover)
  moreover have "bucket_inv key' (runBucket k R1)" if "key' \<noteq> k" for key'
    using runBucket_other [OF that other [OF that]] .
  ultimately show ?thesis by (cases "key = k") auto
qed

lemma json_settled_inv:
  assumes inv: "\<And>key. bucket_inv key R" and fired: "json_settled j body R = Some R'"
  shows "bucket_inv key R'"
proof -
  from fired obtain k res where found: "find_job j (running R) = Some (k, Parsing res)"
    by (auto simp: json_settled_def split: option.splits phase.splits)
  with fired show ?thesis
    by (auto simp: json_settled_def Let_def intro!: job_ends_inv [OF inv found])
qed

lemma fetch_rejected_inv:
  assumes inv: "\<And>key. bucket_inv key R" and fired: "fetch_rejected j R = Some R'"
  shows "bucket_inv key R'"
proof -
  from fired obtain k where found: "find_job j (running R) = Some (k, Fetching)"
    by (auto simp: fetch_rejected_def split: option.splits phase.splits)
  with fired show ?thesis
    by (auto simp: fetch_rejected_def intro!: job_ends_inv [OF inv found])
qed

lemma fire_inv:
  assumes "\<And>key. bucket_inv key R" "fire e R = Some R'"
  shows "bucket_inv key R'"
  using assms
  by (cases e) (auto intro: request_inv tick_inv timeout_inv fetch_resolved_inv json_settled_inv fetch_rejected_inv)

lemma run_inv:
  "(\<And>key. bucket_inv key R) \<Longrightarrow> run es R = Some R' \<Longrightarrow> bucket_inv key R'"
proof (induction es arbitrary: R key)
  case Nil
  then show ?case by simp
next
  case (Cons e es)
  from Cons.prems(2) obtain R1 where e: "fire e R = Some R1" and es: "run es R1 = Some R'"
    by (auto split: option.splits)
  have "bucket_inv key' R1" for key'
    using fire_inv [OF Cons.prems(1) e] .
  then show ?case using Cons.IH es by blast
qed

lemma new_Rest_inv: "bucket_inv key (new_Rest t0)"
  by (simp add: new_Rest_def bucket_inv_def log_ok_def drivers_def timers_of_def in_flight_def bucket_queue_def)

text \<open>
  C1. In every state that the scheduler reaches from a new \<open>Rest\<close> by any interleaving
  of requests, timer callbacks, responses, failures and the passing of time, and for
  every bucket key: at most one job of the bucket is in flight; the jobs begun so far,
  followed by the jobs still queued, are the jobs in the order in which they were
  queued (first in, first out); and no job of the bucket began while another one of
  the bucket was still running.
\<close>

theorem one_in_flight_fifo:
  assumes "run es (new_Rest t0) = Some R"
  shows "length (in_flight key R) \<le> 1 \<and>
         begun key (history R) @ bucket_queue key R = queued key (history R) \<and>
         windows key None (history R) = Some (case in_flight key R of [] \<Rightarrow> None | j # _ \<Rightarrow> Some j)"
proof -
  have "bucket_inv key R"
    using run_inv [OF new_Rest_inv assms] .
  then show ?thesis
    using bucket_inv_single [of key R] by (simp add: bucket_inv_def log_ok_def)
qed

lemmas rest_eval = demo_def request_def queueRequest_def getBucketKey_def toUpperCase_def upper_char_def
  runBucket_def fetch_resolved_def json_settled_def fetch_rejected_def timeout_def tick_def
  new_Rest_def Let_def in_flight_def bucket_queue_def

theorem one_in_flight_fifo_witness:
  "run demo (new_Rest 0) \<noteq> None \<and>
   length (in_flight ''GET user'' (the (run demo (new_Rest 0)))) \<le> 1 \<and>
   begun ''GET user'' (history (the (run demo (new_Rest 0)))) = [0, 1]"
proof -
  have ev: "run demo (new_Rest 0) \<noteq> None"
    by (simp add: rest_eval)
  then obtain R where R: "run demo (new_Rest 0) = Some R" by auto
  have b: "begun ''GET user'' (history (the (run demo (new_Rest 0)))) = [0, 1]"
    by (simp add: rest_eval)
  from one_in_flight_fifo [OF R, of "''GET user''"] ev b R show ?thesis by simp
qed

subsection \<open>Throttling\<close>

lemma begin_times_append: "begin_times key (h @ h') = begin_times key h @ begin_times key h'"
  by (induction key h rule: begin_times.induct) auto

lemma runBucket_pops:
  "(running (runBucket key R) \<noteq> running R) =
   (case buckets R key of None \<Rightarrow> False
    | Some b \<Rightarrow> (0 < remaining b \<or> resetAt b \<le> clock R) \<and> queue b \<noteq> [])"
  by (auto simp: runBucket_def split: option.splits list.splits)

lemma runBucket_defers:
  "buckets R key = Some b \<Longrightarrow> remaining b \<le> 0 \<Longrightarrow> clock R < resetAt b \<Longrightarrow>
   runBucket key R = R\<lparr>timers := timers R @ [(resetAt b, key)]\<rparr>"
  by (simp add: runBucket_def)

lemma runBucket_late:
  assumes "throttled key x R" "late key x n R"
  shows "throttled key x (runBucket k R) \<and> late key x n (runBucket k R)"
  using assms
  by (auto simp: runBucket_def throttled_def late_def fetching_def begin_times_append
      split: option.splits list.splits if_splits)

lemma fetching_set_phase:
  "fetching key (R\<lparr>running := rs\<rparr>) = [] \<Longrightarrow>
   fetching key (R\<lparr>running := set_phase j (Parsing res) rs\<rparr>) = []"
  by (induction j "Parsing res" rs rule: set_phase.induct) (auto simp: fetching_def split: if_splits)

lemma fetching_drop_job:
  "fetching key (R\<lparr>running := rs\<rparr>) = [] \<Longrightarrow> fetching key (R\<lparr>running := drop_job j rs\<rparr>) = []"
  by (induction j rs rule: drop_job.induct) (auto simp: fetching_def split: if_splits)

lemma find_job_fetching:
  "find_job j rs = Some (k, Fetching) \<Longrightarrow> fetching k (R\<lparr>running := rs\<rparr>) \<noteq> []"
  by (induction j rs rule: find_job.induct) (auto simp: fetching_def split: if_splits)

lemma request_late:
  assumes "throttled key x R" "late key x n R"
  shows "throttled key x (request m route R) \<and> late key x n (request m route R)"
proof -
  define k where "k = getBucketKey (Method_str m) route"
  define b where "b = (case buckets R k of Some b \<Rightarrow> b
                    | None \<Rightarrow> \<lparr>resetAt = 0, remaining = 1, queue = [], isRunning = False\<rparr>)"
  define R' where "R' = R\<lparr>next_job := Suc (next_job R),
       buckets := (buckets R)(k \<mapsto> b\<lparr>queue := queue b @ [next_job R]\<rparr>),
       history := history R @ [Queued k (next_job R)]\<rparr>"
  have req: "request m route R = (if \<not> isRunning b then runBucket k R' else R')"
    by (simp add: request_def queueRequest_def Let_def k_def b_def R'_def)
  have "throttled key x R'"
    using assms(1)
    by (auto simp: throttled_def R'_def b_def fetching_def split: option.splits if_splits)
  moreover have "late key x n R'"
    using assms(2) by (auto simp: late_def R'_def begin_times_append)
  ultimately show ?thesis
    using runBucket_late [of key x R' n k] req by auto
qed

lemma job_ends_late:
  assumes "throttled key x R" "late key x n R"
    and R1: "running R1 = drop_job j (running R)" "history R1 = history R @ [End k j (clock R)]"
       "buckets R1 = buckets R" "clock R1 = clock R"
  shows "throttled key x (runBucket k R1) \<and> late key x n (runBucket k R1)"
proof -
  have "fetching key R = [] \<Longrightarrow> fetching key R1 = []"
    using fetching_drop_job [where key=key and R=R and rs="running R" and j=j] R1(1) by (simp add: fetching_def)
  then have "throttled key x R1"
    using assms(1) R1 by (auto simp: throttled_def split: if_splits)
  moreover have "late key x n R1"
    using assms(2) R1 by (auto simp: late_def begin_times_append)
  ultimately show ?thesis by (rule runBucket_late)
qed

lemma fire_late:
  assumes "throttled key x R" "late key x n R" "fire e R = Some R'"
  shows "throttled key x R' \<and> late key x n R'"
proof (cases e)
  case (Request m route)
  with assms request_late show ?thesis by auto
next
  case (Tick d)
  with assms show ?thesis
    by (auto simp: tick_def throttled_def late_def fetching_def split: if_splits)
next
  case (Timeout i)
  define R1 where "R1 = R\<lparr>timers := take i (timers R) @ drop (Suc i) (timers R)\<rparr>"
  have "throttled key x R1" "late key x n R1"
    using assms(1,2) by (auto simp: R1_def throttled_def late_def fetching_def)
  then show ?thesis
    using runBucket_late [of key x R1 n] assms(3) Timeout
    by (auto simp: timeout_def R1_def split: if_splits)
next
  case (FetchResolved j res)
  with assms(3) obtain k where found: "find_job j (running R) = Some (k, Fetching)"
    by (auto simp: fetch_resolved_def split: option.splits phase.splits)
  have nf: "fetching k R \<noteq> []"
    using find_job_fetching [OF found, where R=R] by (simp add: fetching_def)
  have keep: "fetching key R = [] \<Longrightarrow> fetching key R' = []"
    using fetching_set_phase [where key=key and R=R and rs="running R" and j=j and res=res] assms(3) FetchResolved found
    by (auto simp: fetch_resolved_def Let_def fetching_def split: option.splits)
  have facts: "clock R' = clock R" "history R' = history R"
    "\<And>key'. key' \<noteq> k \<Longrightarrow> buckets R' key' = buckets R key'"
    using assms(3) FetchResolved found
    by (auto simp: fetch_resolved_def Let_def split: option.splits)
  have "throttled key x R'"
  proof (cases "x \<le> clock R")
    case True
    then show ?thesis by (simp add: throttled_def facts(1))
  next
    case False
    with assms(1) have idle: "fetching key R = []" by (simp add: throttled_def)
    with nf have "key \<noteq> k" by auto
    with assms(1) keep [OF idle] facts(1) facts(3) [of key] show ?thesis
      by (simp add: throttled_def)
  qed
  moreover have "late key x n R'"
    using assms(2) facts(2) by (simp add: late_def)
  ultimately show ?thesis by simp
next
  case (FetchRejected j)
  with assms(3) obtain k where found: "find_job j (running R) = Some (k, Fetching)"
    by (auto simp: fetch_rejected_def split: option.splits phase.splits)
  define R1 where "R1 = R\<lparr>running := drop_job j (running R), history := history R @ [End k j (clock R)]\<rparr>"
  have "R' = runBucket k R1"
    using assms(3) FetchRejected found by (simp add: fetch_rejected_def R1_def)
  then show ?thesis
    using job_ends_late [OF assms(1,2), of R1 j k] by (simp add: R1_def)
next
  case (JsonSettled j body)
  with assms(3) obtain k res where found: "find_job j (running R) = Some (k, Parsing res)"
    by (auto simp: json_settled_def split: option.splits phase.splits)
  define R1 where "R1 = R\<lparr>promises := (promises R)(j \<mapsto>
        (if \<not> ok res then Rejected (status res) (case body of Some b \<Rightarrow> b | None \<Rightarrow> ''{}'')
         else Resolved (case body of Some b \<Rightarrow> b | None \<Rightarrow> ''{}''))),
      running := drop_job j (running R), history := history R @ [End k j (clock R)]\<rparr>"
  have "R' = runBucket k R1"
    using assms(3) JsonSettled found by (simp add: json_settled_def R1_def Let_def)
  then show ?thesis
    using job_ends_late [OF assms(1,2), of R1 j k] by (simp add: R1_def)
qed

lemma run_late:
  "throttled key x R \<Longrightarrow> late key x n R \<Longrightarrow> run es R = Some R' \<Longrightarrow> throttled key x R' \<and> late key x n R'"
proof (induction es arbitrary: R)
  case Nil
  then show ?case by simp
next
  case (Cons e es)
  from Cons.prems(3) obtain R1 where e: "fire e R = Some R1" and es: "run es R1 = Some R'"
    by (auto split: option.splits)
  from fire_late [OF Cons.prems(1,2) e] Cons.IH es show ?case by blast
qed

lemma only_job_parsing:
  "map fst (filter (\<lambda>(j, k', p). k' = key) rs) = [j] \<Longrightarrow> find_job j rs = Some (key, p) \<Longrightarrow>
   fetching key (R\<lparr>running := set_phase j (Parsing res) rs\<rparr>) = []"
proof (induction j rs rule: find_job.induct)
  case (1 j)
  then show ?case by simp
next
  case (2 j i k q rs)
  show ?case
  proof (cases "i = j")
    case True
    with 2 show ?thesis by (auto simp: fetching_def filter_empty_conv)
  next
    case False
    with 2 show ?thesis by (auto simp: fetching_def filter_empty_conv split: if_splits)
  qed
qed

lemma response_throttles:
  assumes reach: "run es0 (new_Rest t0) = Some R0"
    and found: "find_job j (running R0) = Some (k, Fetching)"
    and fired: "fetch_resolved j res R0 = Some R1"
    and hdr: "rl_remaining res = Some n" "n \<le> 0" "rl_reset res = Some x"
  shows "throttled k (x * 1000) R1 \<and> late k (x * 1000) (length (history R1)) R1"
proof -
  have inv: "bucket_inv k R0"
    using run_inv [OF new_Rest_inv reach] .
  have one: "in_flight k R0 = [j]"
    using single_in_flight [OF found bucket_inv_single [OF inv]] .
  then have "drivers k R0 \<noteq> 0" by (simp add: drivers_def)
  with inv obtain b where b: "buckets R0 k = Some b"
    by (auto simp: bucket_inv_def split: option.splits)
  have R1: "R1 = R0\<lparr>buckets := (buckets R0)(k \<mapsto> b\<lparr>remaining := n, resetAt := x * 1000\<rparr>),
                   running := set_phase j (Parsing res) (running R0)\<rparr>"
    using fired found b hdr by (simp add: fetch_resolved_def)
  have "fetching k R1 = []"
    using only_job_parsing [where key=k and rs="running R0" and j=j and p=Fetching and R=R0 and res=res] one found
    by (simp add: in_flight_def R1 fetching_def)
  then have "throttled k (x * 1000) R1"
    using hdr(2) by (simp add: throttled_def R1)
  moreover have "late k (x * 1000) (length (history R1)) R1"
    by (simp add: late_def)
  ultimately show ?thesis by simp
qed

lemma job_end_defers:
  assumes "throttled k y Rm" "clock Rm < y" "find_job i (running Rm) = Some (k, p)"
    "json_settled i body Rm = Some R' \<or> fetch_rejected i Rm = Some R'"
  shows "timers R' = timers Rm @ [(y, k)]"
  using assms
  by (auto simp: throttled_def json_settled_def fetch_rejected_def runBucket_def Let_def
      split: option.splits phase.splits if_splits)

text \<open>
  C2. \<open>runBucket\<close> starts the head job of a bucket exactly when the queue is not empty and
  \<open>remaining > 0\<close> or \<open>now >= resetAt\<close>; when \<open>remaining <= 0\<close> and \<open>now < resetAt\<close> it
  changes nothing but the timers, to which it adds a retry due at \<open>resetAt\<close>. In
  particular, once a response has set \<open>remaining\<close> to a value \<open>n <= 0\<close> and the reset time
  to \<open>x\<close> seconds, in any state the scheduler reaches afterwards every job of that bucket
  that has begun since has begun at or after \<open>x * 1000\<close> ms, and a job of the bucket that
  ends before that time leaves a retry timer due at \<open>x * 1000\<close> ms.
\<close>

theorem throttled_bucket_waits:
  "((running (runBucket key R) \<noteq> running R) =
      (case buckets R key of None \<Rightarrow> False
       | Some b \<Rightarrow> (0 < remaining b \<or> resetAt b \<le> clock R) \<and> queue b \<noteq> [])) \<and>
   (buckets R key = Some b \<and> remaining b \<le> 0 \<and> clock R < resetAt b \<longrightarrow>
      runBucket key R = R\<lparr>timers := timers R @ [(resetAt b, key)]\<rparr>) \<and>
   (run es0 (new_Rest t0) = Some R0 \<and> find_job j (running R0) = Some (k, Fetching) \<and>
    fetch_resolved j res R0 = Some R1 \<and>
    rl_remaining res = Some n \<and> n \<le> 0 \<and> rl_reset res = Some x \<and> run es R1 = Some R2 \<longrightarrow>
      list_all (\<lambda>t. x * 1000 \<le> t) (begin_times k (drop (length (history R1)) (history R2))) \<and>
      (clock R2 < x * 1000 \<and> find_job i (running R2) = Some (k, p) \<and>
       (json_settled i body R2 = Some R3 \<or> fetch_rejected i R2 = Some R3) \<longrightarrow>
         timers R3 = timers R2 @ [(x * 1000, k)]))"
proof (intro conjI impI)
  show "(running (runBucket key R) \<noteq> running R) =
      (case buckets R key of None \<Rightarrow> False
       | Some b \<Rightarrow> (0 < remaining b \<or> resetAt b \<le> clock R) \<and> queue b \<noteq> [])"
    by (rule runBucket_pops)
next
  assume "buckets R key = Some b \<and> remaining b \<le> 0 \<and> clock R < resetAt b"
  then show "runBucket key R = R\<lparr>timers := timers R @ [(resetAt b, key)]\<rparr>"
    by (simp add: runBucket_defers)
next
  assume a: "run es0 (new_Rest t0) = Some R0 \<and> find_job j (running R0) = Some (k, Fetching) \<and>
    fetch_resolved j res R0 = Some R1 \<and>
    rl_remaining res = Some n \<and> n \<le> 0 \<and> rl_reset res = Some x \<and> run es R1 = Some R2"
  then have "throttled k (x * 1000) R1 \<and> late k (x * 1000) (length (history R1)) R1"
    using response_throttles [where ?es0.0=es0 and ?t0.0=t0 and ?R0.0=R0 and j=j and k=k and res=res and ?R1.0=R1 and n=n and x=x] by simp
  with a have *: "throttled k (x * 1000) R2 \<and> late k (x * 1000) (length (history R1)) R2"
    using run_late [where key=k and x="x * 1000" and R=R1 and n="length (history R1)" and es=es and R'=R2] by simp
  then show "list_all (\<lambda>t. x * 1000 \<le> t) (begin_times k (drop (length (history R1)) (history R2)))"
    by (simp add: late_def)
  assume "clock R2 < x * 1000 \<and> find_job i (running R2) = Some (k, p) \<and>
       (json_settled i body R2 = Some R3 \<or> fetch_rejected i R2 = Some R3)"
  with * show "timers R3 = timers R2 @ [(x * 1000, k)]"
    using job_end_defers [where k=k and y="x * 1000" and Rm=R2 and i=i and p=p and body=body and R'=R3] by simp
qed

lemmas rest_eval2 = rest_eval after_def demo_res_def demo_R0_def demo_R1_def demo_tail_def

theorem throttled_bucket_waits_witness:
  "runBucket ''GET user'' demo_R1 = demo_R1\<lparr>timers := timers demo_R1 @ [(2000, ''GET user'')]\<rparr> \<and>
   running (runBucket ''GET user'' demo_R1) = running demo_R1 \<and>
   begin_times ''GET user'' (drop (length (history demo_R1)) (history (after demo_tail demo_R1))) = [2000] \<and>
   list_all (\<lambda>t. 2 * 1000 \<le> t)
     (begin_times ''GET user'' (drop (length (history demo_R1)) (history (after demo_tail demo_R1)))) \<and>
   timers (after [JsonSettled 0 None] demo_R1) = timers demo_R1 @ [(2 * 1000, ''GET user'')]"
proof -
  have r0: "run [Request GET ''user'', Request GET ''user''] (new_Rest 0) = Some demo_R0"
    by (simp add: rest_eval2)
  have f0: "find_job 0 (running demo_R0) = Some (''GET user'', Fetching)"
    by (simp add: rest_eval2)
  have r1: "fetch_resolved 0 demo_res demo_R0 = Some demo_R1"
    by (simp add: rest_eval2)
  have hd: "rl_remaining demo_res = Some 0" "rl_reset demo_res = Some 2"
    by (simp_all add: demo_res_def)
  have r2: "run demo_tail demo_R1 = Some (after demo_tail demo_R1)"
    by (simp add: rest_eval2)
  have r2': "run [] demo_R1 = Some demo_R1" by simp
  have b1: "buckets demo_R1 ''GET user'' = Some \<lparr>resetAt = 2000, remaining = 0, queue = [1], isRunning = True\<rparr>"
    by (simp add: rest_eval2)
  have c1: "clock demo_R1 < 2 * 1000"
    by (simp add: rest_eval2)
  have f1: "find_job 0 (running demo_R1) = Some (''GET user'', Parsing demo_res)"
    by (simp add: rest_eval2)
  have j1: "json_settled 0 None demo_R1 = Some (after [JsonSettled 0 None] demo_R1)"
    by (simp add: rest_eval2)
  have bt: "begin_times ''GET user'' (drop (length (history demo_R1)) (history (after demo_tail demo_R1))) = [2000]"
    by (simp add: rest_eval2)
  note A = throttled_bucket_waits [where key="''GET user''" and R=demo_R1
      and b="\<lparr>resetAt = 2000, remaining = 0, queue = [1], isRunning = True\<rparr>"
      and ?es0.0="[Request GET ''user'', Request GET ''user'']" and ?t0.0=0 and ?R0.0=demo_R0
      and j=0 and k="''GET user''" and res=demo_res and ?R1.0=demo_R1 and n=0 and x=2
      and es=demo_tail and ?R2.0="after demo_tail demo_R1"]
  note B = throttled_bucket_waits [where key="''GET user''" and R=demo_R1
      and b="\<lparr>resetAt = 2000, remaining = 0, queue = [1], isRunning = True\<rparr>"
      and ?es0.0="[Request GET ''user'', Request GET ''user'']" and ?t0.0=0 and ?R0.0=demo_R0
      and j=0 and k="''GET user''" and res=demo_res and ?R1.0=demo_R1 and n=0 and x=2
      and es="[]" and ?R2.0=demo_R1 and i=0 and p="Parsing demo_res" and body=None
      and ?R3.0="after [JsonSettled 0 None] demo_R1"]
  from A r0 f0 r1 hd r2 b1 bt B r2' c1 f1 j1 show ?thesis
    by simp
qed

subsection \<open>The promise of the caller\<close>

lemma find_job_drop_job: "find_job j rs = None \<Longrightarrow> find_job j (drop_job i rs) = None"
  by (induction i rs rule: drop_job.induct) (auto split: if_splits)

lemma find_job_set_phase: "find_job j rs = None \<Longrightarrow> find_job j (set_phase i q rs) = None"
  by (induction i q rs rule: set_phase.induct) (auto split: if_splits)

lemma find_job_append: "find_job j (rs @ rs') = (case find_job j rs of None \<Rightarrow> find_job j rs' | Some r \<Rightarrow> Some r)"
  by (induction j rs rule: find_job.induct) auto

lemma runBucket_abandoned: "abandoned j R \<Longrightarrow> abandoned j (runBucket k R)"
proof -
  assume a: "abandoned j R"
  show ?thesis
  proof (cases "buckets R k")
    case None
    with a show ?thesis by (simp add: runBucket_def)
  next
    case (Some b)
    with a have q: "j \<notin> set (queue b)" by (simp add: abandoned_def)
    show ?thesis
    proof (cases "queue b")
      case Nil
      with a Some show ?thesis
        by (auto simp: abandoned_def runBucket_def)
    next
      case (Cons i rest)
      with q have "i \<noteq> j" "j \<notin> set rest" by auto
      with a Some Cons show ?thesis
        by (auto simp: abandoned_def runBucket_def find_job_append)
    qed
  qed
qed

lemma request_abandoned: "abandoned j R \<Longrightarrow> abandoned j (request m route R)"
proof -
  assume a: "abandoned j R"
  define k where "k = getBucketKey (Method_str m) route"
  define b where "b = (case buckets R k of Some b \<Rightarrow> b
                    | None \<Rightarrow> \<lparr>resetAt = 0, remaining = 1, queue = [], isRunning = False\<rparr>)"
  define R' where "R' = R\<lparr>next_job := Suc (next_job R),
       buckets := (buckets R)(k \<mapsto> b\<lparr>queue := queue b @ [next_job R]\<rparr>),
       history := history R @ [Queued k (next_job R)]\<rparr>"
  have req: "request m route R = (if \<not> isRunning b then runBucket k R' else R')"
    by (simp add: request_def queueRequest_def Let_def k_def b_def R'_def)
  have "abandoned j R'"
    using a by (auto simp: abandoned_def R'_def b_def split: option.splits)
  then show ?thesis
    using req runBucket_abandoned by auto
qed

lemma fire_abandoned:
  assumes "abandoned j R" "fire e R = Some R'"
  shows "abandoned j R'"
proof (cases e)
  case (Request m route)
  with assms request_abandoned show ?thesis by auto
next
  case (Tick d)
  with assms show ?thesis by (auto simp: tick_def abandoned_def split: if_splits)
next
  case (Timeout i)
  have "abandoned j (R\<lparr>timers := take i (timers R) @ drop (Suc i) (timers R)\<rparr>)"
    using assms(1) by (simp add: abandoned_def)
  then show ?thesis
    using runBucket_abandoned assms(2) Timeout by (auto simp: timeout_def split: if_splits)
next
  case (FetchResolved i res)
  with assms show ?thesis
    by (auto simp: fetch_resolved_def abandoned_def Let_def find_job_set_phase
        split: option.splits phase.splits if_splits)
next
  case (FetchRejected i)
  with assms(2) obtain k where found: "find_job i (running R) = Some (k, Fetching)"
    by (auto simp: fetch_rejected_def split: option.splits phase.splits)
  have "abandoned j (R\<lparr>running := drop_job i (running R), history := history R @ [End k i (clock R)]\<rparr>)"
    using assms(1) by (simp add: abandoned_def find_job_drop_job)
  then show ?thesis
    using runBucket_abandoned assms(2) FetchRejected found by (auto simp: fetch_rejected_def)
next
  case (JsonSettled i body)
  with assms(2) obtain k res where found: "find_job i (running R) = Some (k, Parsing res)"
    by (auto simp: json_settled_def split: option.splits phase.splits)
  with assms(1) have "i \<noteq> j" by (auto simp: abandoned_def)
  then have "abandoned j (R\<lparr>promises := (promises R)(i \<mapsto> v),
      running := drop_job i (running R), history := history R @ [End k i (clock R)]\<rparr>)" for v
    using assms(1) by (simp add: abandoned_def find_job_drop_job)
  then show ?thesis
    using runBucket_abandoned assms(2) JsonSettled found by (auto simp: json_settled_def Let_def)
qed

lemma run_abandoned: "abandoned j R \<Longrightarrow> run es R = Some R' \<Longrightarrow> abandoned j R'"
proof (induction es arbitrary: R)
  case Nil
  then show ?case by simp
next
  case (Cons e es)
  from Cons.prems(2) obtain R1 where e: "fire e R = Some R1" and es: "run es R1 = Some R'"
    by (auto split: option.splits)
  from fire_abandoned [OF Cons.prems(1) e] Cons.IH es show ?case by blast
qed

lemma first_fetch_rejected:
  "fire (Request m route) (new_Rest t0) = Some R1 \<Longrightarrow> fire (FetchRejected 0) R1 = Some R2 \<Longrightarrow> abandoned 0 R2"
  by (auto simp: request_def queueRequest_def runBucket_def fetch_rejected_def new_Rest_def Let_def abandoned_def
      split: if_splits)

text \<open>
  C8, evaluated on the code at a transport failure. The first request of a new \<open>Rest\<close> is
  started at once; when its \<open>fetch\<close> throws, the job leaves the bucket and \<open>runBucket\<close>
  goes on, but the caller's promise is settled by nobody: whatever the event loop does
  afterwards, the promise of job 0 stays pending, and the job is neither running nor
  queued any more, so nothing is left that could settle it.
\<close>

theorem transport_failure_never_settles:
  assumes "run (Request m route # FetchRejected 0 # es) (new_Rest t0) = Some R"
  shows "promises R 0 = None \<and> find_job 0 (running R) = None \<and> 0 \<notin> set (bucket_queue key R)"
proof -
  from assms obtain R1 R2 where 1: "fire (Request m route) (new_Rest t0) = Some R1"
    and 2: "fire (FetchRejected 0) R1 = Some R2" and 3: "run es R2 = Some R"
    by (auto split: option.splits)
  have "abandoned 0 R"
    using run_abandoned [OF first_fetch_rejected [OF 1 2] 3] .
  then show ?thesis
    by (auto simp: abandoned_def bucket_queue_def split: option.splits)
qed

theorem transport_failure_never_settles_witness:
  "run [Request GET ''user'', FetchRejected 0, Tick 60000, Request GET ''user''] (new_Rest 0) \<noteq> None \<and>
   promises (after [Request GET ''user'', FetchRejected 0, Tick 60000, Request GET ''user''] (new_Rest 0)) 0 = None \<and>
   find_job 0 (running (after [Request GET ''user'', FetchRejected 0, Tick 60000, Request GET ''user''] (new_Rest 0))) = None"
proof -
  have r: "run [Request GET ''user'', FetchRejected 0, Tick 60000, Request GET ''user''] (new_Rest 0)
     = Some (after [Request GET ''user'', FetchRejected 0, Tick 60000, Request GET ''user''] (new_Rest 0))"
    by (simp add: rest_eval2)
  from transport_failure_never_settles [OF r] r show ?thesis by simp
qed

text \<open>The sibling path: a response that is not \<open>ok\<close> rejects the caller's promise with status and body.\<close>

lemma error_response_rejects:
  "find_job j (running R) = Some (key, Parsing res) \<Longrightarrow> \<not> ok res \<Longrightarrow> json_settled j (Some body) R = Some R' \<Longrightarrow>
   promises R' j = Some (Rejected (status res) body)"
  by (auto simp: json_settled_def runBucket_def Let_def split: option.splits list.splits if_splits)

section \<open>Theorems about Socket\<close>

subsection \<open>The helpers\<close>

text \<open>The helpers change one part of the state and leave the others.\<close>

lemma say_fields [simp]:
  "settings (say lvl msg st) = settings st"
  "started (say lvl msg st) = started st"
  "lastPing (say lvl msg st) = lastPing st"
  "lastACK (say lvl msg st) = lastACK st"
  "heartbeat (say lvl msg st) = heartbeat st"
  "sessionId (say lvl msg st) = sessionId st"
  "lastSequence (say lvl msg st) = lastSequence st"
  "reconnecting (say lvl msg st) = reconnecting st"
  "retries (say lvl msg st) = retries st"
  "events (say lvl msg st) = events st"
  "ws (say lvl msg st) = ws st"
  "sockets (say lvl msg st) = sockets st"
  "next_socket (say lvl msg st) = next_socket st"
  "now (say lvl msg st) = now st"
  "timeouts (say lvl msg st) = timeouts st"
  "next_timer (say lvl msg st) = next_timer st"
  "loading (say lvl msg st) = loading st"
  "store_calls (say lvl msg st) = store_calls st"
  "invoked (say lvl msg st) = invoked st"
  "settled (say lvl msg st) = settled st"
  by (simp_all add: say_def)

lemma echo_debug_fields [simp]:
  "settings (echo_debug msg st) = settings st"
  "started (echo_debug msg st) = started st"
  "lastPing (echo_debug msg st) = lastPing st"
  "lastACK (echo_debug msg st) = lastACK st"
  "heartbeat (echo_debug msg st) = heartbeat st"
  "sessionId (echo_debug msg st) = sessionId st"
  "lastSequence (echo_debug msg st) = lastSequence st"
  "reconnecting (echo_debug msg st) = reconnecting st"
  "retries (echo_debug msg st) = retries st"
  "events (echo_debug msg st) = events st"
  "ws (echo_debug msg st) = ws st"
  "sockets (echo_debug msg st) = sockets st"
  "next_socket (echo_debug msg st) = next_socket st"
  "now (echo_debug msg st) = now st"
  "timeouts (echo_debug msg st) = timeouts st"
  "next_timer (echo_debug msg st) = next_timer st"
  "loading (echo_debug msg st) = loading st"
  "store_calls (echo_debug msg st) = store_calls st"
  "invoked (echo_debug msg st) = invoked st"
  "settled (echo_debug msg st) = settled st"
  by (simp_all add: echo_debug_def say_def)

lemma warn_warns_fields [simp]:
  "settings (warn_warns msg st) = settings st"
  "started (warn_warns msg st) = started st"
  "lastPing (warn_warns msg st) = lastPing st"
  "lastACK (warn_warns msg st) = lastACK st"
  "heartbeat (warn_warns msg st) = heartbeat st"
  "sessionId (warn_warns msg st) = sessionId st"
  "lastSequence (warn_warns msg st) = lastSequence st"
  "reconnecting (warn_warns msg st) = reconnecting st"
  "retries (warn_warns msg st) = retries st"
  "events (warn_warns msg st) = events st"
  "ws (warn_warns msg st) = ws st"
  "sockets (warn_warns msg st) = sockets st"
  "next_socket (warn_warns msg st) = next_socket st"
  "now (warn_warns msg st) = now st"
  "timeouts (warn_warns msg st) = timeouts st"
  "next_timer (warn_warns msg st) = next_timer st"
  "loading (warn_warns msg st) = loading st"
  "store_calls (warn_warns msg st) = store_calls st"
  "invoked (warn_warns msg st) = invoked st"
  "settled (warn_warns msg st) = settled st"
  by (simp_all add: warn_warns_def say_def)

lemma store_clear_fields [simp]:
  "settings (store_clear st) = settings st"
  "started (store_clear st) = started st"
  "lastPing (store_clear st) = lastPing st"
  "lastACK (store_clear st) = lastACK st"
  "heartbeat (store_clear st) = heartbeat st"
  "sessionId (store_clear st) = sessionId st"
  "lastSequence (store_clear st) = lastSequence st"
  "reconnecting (store_clear st) = reconnecting st"
  "retries (store_clear st) = retries st"
  "events (store_clear st) = events st"
  "ws (store_clear st) = ws st"
  "sockets (store_clear st) = sockets st"
  "next_socket (store_clear st) = next_socket st"
  "now (store_clear st) = now st"
  "timeouts (store_clear st) = timeouts st"
  "next_timer (store_clear st) = next_timer st"
  "loading (store_clear st) = loading st"
  "logged (store_clear st) = logged st"
  "invoked (store_clear st) = invoked st"
  "settled (store_clear st) = settled st"
  by (simp_all add: store_clear_def)

lemma store_save_fields [simp]:
  "settings (store_save sid sq st) = settings st"
  "started (store_save sid sq st) = started st"
  "lastPing (store_save sid sq st) = lastPing st"
  "lastACK (store_save sid sq st) = lastACK st"
  "heartbeat (store_save sid sq st) = heartbeat st"
  "sessionId (store_save sid sq st) = sessionId st"
  "lastSequence (store_save sid sq st) = lastSequence st"
  "reconnecting (store_save sid sq st) = reconnecting st"
  "retries (store_save sid sq st) = retries st"
  "events (store_save sid sq st) = events st"
  "ws (store_save sid sq st) = ws st"
  "sockets (store_save sid sq st) = sockets st"
  "next_socket (store_save sid sq st) = next_socket st"
  "now (store_save sid sq st) = now st"
  "timeouts (store_save sid sq st) = timeouts st"
  "next_timer (store_save sid sq st) = next_timer st"
  "loading (store_save sid sq st) = loading st"
  "logged (store_save sid sq st) = logged st"
  "invoked (store_save sid sq st) = invoked st"
  "settled (store_save sid sq st) = settled st"
  by (simp_all add: store_save_def)

lemma settle_fields [simp]:
  "settings (settle out st) = settings st"
  "started (settle out st) = started st"
  "lastPing (settle out st) = lastPing st"
  "lastACK (settle out st) = lastACK st"
  "heartbeat (settle out st) = heartbeat st"
  "sessionId (settle out st) = sessionId st"
  "lastSequence (settle out st) = lastSequence st"
  "reconnecting (settle out st) = reconnecting st"
  "retries (settle out st) = retries st"
  "events (settle out st) = events st"
  "ws (settle out st) = ws st"
  "sockets (settle out st) = sockets st"
  "next_socket (settle out st) = next_socket st"
  "now (settle out st) = now st"
  "timeouts (settle out st) = timeouts st"
  "next_timer (settle out st) = next_timer st"
  "loading (settle out st) = loading st"
  "logged (settle out st) = logged st"
  "store_calls (settle out st) = store_calls st"
  "invoked (settle out st) = invoked st"
  by (simp_all add: settle_def)

lemma set_timer_fields [simp]:
  "settings (set_timer delay kind st) = settings st"
  "started (set_timer delay kind st) = started st"
  "lastPing (set_timer delay kind st) = lastPing st"
  "lastACK (set_timer delay kind st) = lastACK st"
  "heartbeat (set_timer delay kind st) = heartbeat st"
  "sessionId (set_timer delay kind st) = sessionId st"
  "lastSequence (set_timer delay kind st) = lastSequence st"
  "reconnecting (set_timer delay kind st) = reconnecting st"
  "retries (set_timer delay kind st) = retries st"
  "events (set_timer delay kind st) = events st"
  "ws (set_timer delay kind st) = ws st"
  "sockets (set_timer delay kind st) = sockets st"
  "next_socket (set_timer delay kind st) = next_socket st"
  "now (set_timer delay kind st) = now st"
  "loading (set_timer delay kind st) = loading st"
  "logged (set_timer delay kind st) = logged st"
  "store_calls (set_timer delay kind st) = store_calls st"
  "invoked (set_timer delay kind st) = invoked st"
  "settled (set_timer delay kind st) = settled st"
  by (simp_all add: set_timer_def)

lemma clear_timer_fields [simp]:
  "settings (clear_timer h st) = settings st"
  "started (clear_timer h st) = started st"
  "lastPing (clear_timer h st) = lastPing st"
  "lastACK (clear_timer h st) = lastACK st"
  "heartbeat (clear_timer h st) = heartbeat st"
  "sessionId (clear_timer h st) = sessionId st"
  "lastSequence (clear_timer h st) = lastSequence st"
  "reconnecting (clear_timer h st) = reconnecting st"
  "retries (clear_timer h st) = retries st"
  "events (clear_timer h st) = events st"
  "ws (clear_timer h st) = ws st"
  "sockets (clear_timer h st) = sockets st"
  "next_socket (clear_timer h st) = next_socket st"
  "now (clear_timer h st) = now st"
  "next_timer (clear_timer h st) = next_timer st"
  "loading (clear_timer h st) = loading st"
  "logged (clear_timer h st) = logged st"
  "store_calls (clear_timer h st) = store_calls st"
  "invoked (clear_timer h st) = invoked st"
  "settled (clear_timer h st) = settled st"
  by (simp_all add: clear_timer_def)

lemma say_logged [simp]: "logged (say lvl msg st) = logged st @ [(lvl, msg)]"
  by (simp add: say_def)

lemma echo_debug_logged [simp]:
  "logged (echo_debug msg st) = (if debug (settings st) then logged st @ [(Echo, msg)] else logged st)"
  by (simp add: echo_debug_def)

lemma warn_warns_logged [simp]:
  "logged (warn_warns msg st) = (if warns (settings st) then logged st @ [(Warn, msg)] else logged st)"
  by (simp add: warn_warns_def)

lemma store_clear_calls [simp]:
  "store_calls (store_clear st) = (if sessionStore (settings st) then store_calls st @ [Clear] else store_calls st)"
  by (simp add: store_clear_def)

lemma store_save_calls [simp]:
  "store_calls (store_save sid sq st) = (if sessionStore (settings st) then store_calls st @ [Save sid sq] else store_calls st)"
  by (simp add: store_save_def)

lemma settle_settled [simp]: "settled (settle out st) = settled st @ [out]"
  by (simp add: settle_def)

lemma set_timer_timeouts [simp]:
  "timeouts (set_timer delay kind st) = timeouts st @ [(next_timer st, now st + int delay, kind)]"
  "next_timer (set_timer delay kind st) = Suc (next_timer st)"
  by (simp_all add: set_timer_def)

lemma clear_timer_timeouts [simp]:
  "timeouts (clear_timer h st) = filter (\<lambda>(i, due, kind). i \<noteq> h) (timeouts st)"
  by (simp add: clear_timer_def)


subsection \<open>destroy\<close>

lemma destroy_keeps_counter:
  "retries (snd (destroy who st)) = retries st \<and> settings (snd (destroy who st)) = settings st \<and>
   reconnecting (snd (destroy who st)) = reconnecting st \<and>
   sessionId (snd (destroy who st)) = sessionId st \<and> lastSequence (snd (destroy who st)) = lastSequence st \<and>
   store_calls (snd (destroy who st)) = store_calls st \<and> settled (snd (destroy who st)) = settled st \<and>
   loading (snd (destroy who st)) = loading st \<and> next_socket (snd (destroy who st)) = next_socket st \<and>
   next_timer (snd (destroy who st)) = next_timer st \<and> now (snd (destroy who st)) = now st \<and>
   events (snd (destroy who st)) = events st \<and> invoked (snd (destroy who st)) = invoked st"
  by (auto simp: destroy_def Let_def split: option.splits if_splits)

lemma destroy_other_sockets:
  "ws st \<noteq> Some r \<Longrightarrow> sockets (snd (destroy who st)) r = sockets st r"
  by (auto simp: destroy_def Let_def split: option.splits if_splits)

lemma destroy_keeps_outbox:
  "map_option outbox (sockets (snd (destroy who st)) r) = map_option outbox (sockets st r)"
  by (auto simp: destroy_def Let_def split: option.splits if_splits)

lemma destroy_clears_heartbeat:
  "heartbeat (snd (destroy who st)) = None \<and>
   list_all (\<lambda>(i, due, kind). Some i \<noteq> heartbeat st) (timeouts (snd (destroy who st)))"
  by (auto simp: destroy_def Let_def list_all_iff split: option.splits if_splits)


lemma destroy_closes:
  assumes "ws st = Some r" "sockets st r = Some w" "close_raises w = None"
  shows "fst (destroy who st) = None"
    and "ws (snd (destroy who st)) = None"
    and "settled (snd (destroy who st)) = settled st"
    and "sockets (snd (destroy who st)) r =
      Some (if readyState w = WS_OPEN \<or> readyState w = WS_CONNECTING
            then w\<lparr>onclose := Some (CloseResolvesDestroy who), readyState := WS_CLOSING,
                   close_calls := close_calls w @ [(1000, DESTROYED)],
                   onopen := None, onmessage := False, onerror := None\<rparr>
            else w\<lparr>onclose := Some (CloseResolvesDestroy who),
                   onopen := None, onmessage := False, onerror := None\<rparr>)"
  using assms by (auto simp: destroy_def Let_def split: option.splits)

lemma destroy_closed_socket:
  assumes "ws st = Some r" "sockets st r = Some w" "readyState w = WS_CLOSED"
  shows "fst (destroy who st) = None"
    and "logged (snd (destroy who st)) = logged st"
    and "sockets (snd (destroy who st)) r =
           Some (w\<lparr>onclose := Some (CloseResolvesDestroy who), onopen := None, onmessage := False, onerror := None\<rparr>)"
  using assms by (auto simp: destroy_def Let_def split: option.splits)

text \<open>The paths on which \<open>destroy\<close> does return: no socket (also a second call, after a first
  one has set \<open>_ws\<close> to \<open>null\<close>), an error thrown by \<open>close\<close>, and the close event of a socket
  whose close event was still to come.\<close>

lemma destroy_no_socket: "ws st = None \<Longrightarrow> fst (destroy who st) = Some True"
  by (simp add: destroy_def Let_def split: option.splits)

lemma destroy_twice:
  assumes "ws st = Some r" "sockets st r = Some w" "close_raises w = None"
  shows "fst (destroy who' (snd (destroy who st))) = Some True"
  using destroy_closes(2) [OF assms, of who] by (rule destroy_no_socket)

lemma destroy_close_throws:
  assumes "ws st = Some r" "sockets st r = Some w" "close_raises w = Some err"
    "readyState w = WS_OPEN \<or> readyState w = WS_CONNECTING"
  shows "fst (destroy who st) = Some False \<and> last (logged (snd (destroy who st))) = (Fail, Text err) \<and>
    ws (snd (destroy who st)) = Some r \<and>
    sockets (snd (destroy who st)) r = Some (w\<lparr>onclose := Some CloseResolvesUnawaited\<rparr>)"
proof -
  define st1 where "st1 = (case heartbeat st of Some h \<Rightarrow> (clear_timer h st)\<lparr>heartbeat := None\<rparr> | None \<Rightarrow> st)"
  have k: "ws st1 = Some r" "sockets st1 r = Some w"
    using assms(1,2) by (auto simp: st1_def split: option.splits)
  have "destroy who st = (Some False, say Fail (Text err)
      ((echo_debug SOCKET_CLOSING st1)\<lparr>sockets := (sockets (echo_debug SOCKET_CLOSING st1))(r \<mapsto>
          w\<lparr>onclose := Some CloseResolvesUnawaited\<rparr>)\<rparr>))"
    using assms(3,4) k unfolding destroy_def st1_def [symmetric] by (simp add: Let_def)
  then show ?thesis using k by simp
qed

lemma destroy_resolves_at_close:
  assumes "ws st = Some r" "sockets st r = Some w" "close_raises w = None" "\<not> close_event_fired w"
    "deliver r (WsClose reason) (snd (destroy DestroyByCaller st)) = Some st'"
  shows "last (settled st') = DestroyResolved True"
proof -
  define st1 where "st1 = snd (destroy DestroyByCaller st)"
  from destroy_closes(4) [OF assms(1-3), of DestroyByCaller] assms(4)
  obtain w' where w': "sockets st1 r = Some w'" "onclose w' = Some (CloseResolvesDestroy DestroyByCaller)"
    "\<not> close_event_fired w'"
    by (auto simp: st1_def split: if_splits)
  from assms(5) w' show ?thesis
    unfolding st1_def [symmetric]
    by (auto simp: deliver_def on_close_def destroy_resumed_def destroy_settled_def Let_def)
qed

lemma closed_socket_silent:
  assumes "sockets st r = Some w" "readyState w = WS_CLOSED" "close_event_fired w"
  shows "deliver r ev st = None"
  using assms by (cases ev) (simp_all add: deliver_def)

subsection \<open>reconnect: the backoff\<close>

lemmas sock_eval = new_Socket_def demo_settings_def start_def start_attach_def new_WebSocket_def
  Let_def max_retries_def backoff_def

lemmas run_eval = performed_def failed_attempt_def deliver_def timer_fires_def load_done_def
  on_open_def on_error_def on_close_def start_settled_def destroy_def destroy_resumed_def
  destroy_settled_def call_destroy_def reconnect_def reconnect_after_destroy_def


lemma default_max_retries: "maxRetries (settings st) = None \<Longrightarrow> max_retries st = 5"
  by (simp add: max_retries_def)


text \<open>What the callback of a backoff timer does: it spends the timer and calls \<open>start\<close>, which
  opens a new socket, makes it the current one and is suspended at its \<open>await\<close>.\<close>

lemma backoff_timer_starts:
  assumes "i < length (timeouts st)" "timeouts st ! i = (h, due, ReconnectBackoff)"
  shows "timer_fires i st =
     (if due \<le> now st
      then Some (start StartByReconnect (st\<lparr>timeouts := take i (timeouts st) @ drop (Suc i) (timeouts st)\<rparr>))
      else None)"
  using assms by (simp add: timer_fires_def)

lemma start_opens_socket:
  "started (start who st) \<and> ws (start who st) = Some (next_socket st) \<and>
   sockets (start who st) (next_socket st) = Some new_WebSocket \<and>
   next_socket (start who st) = Suc (next_socket st) \<and>
   loading (start who st) = loading st @ [who] \<and>
   timeouts (start who st) = timeouts st \<and> settings (start who st) = settings st \<and>
   (\<forall>r. r \<noteq> next_socket st \<longrightarrow> sockets (start who st) r = sockets st r)"
  by (simp add: start_def Let_def)





subsection \<open>reconnect: giving up\<close>

lemma reconnect_after_destroy_gives_up:
  assumes "max_retries st \<le> int (retries st)"
  shows "fst (reconnect_after_destroy clear st) = Some False \<and> gave_up st (snd (reconnect_after_destroy clear st))"
  using assms by (auto simp: reconnect_after_destroy_def Let_def max_retries_def gave_up_def)

lemma reconnect_success_resets:
  assumes "sockets st r = Some w" "readyState w = WS_CONNECTING" "onopen w = Some StartByReconnect"
    "start_pending w" "deliver r WsOpen st = Some st'"
  shows "retries st' = 0 \<and> \<not> reconnecting st' \<and> last (settled st') = ReconnectResolved True"
  using assms by (auto simp: deliver_def on_open_def start_settled_def Let_def split: option.splits)

lemma reconnect_gives_up_in_call:
  assumes "\<not> reconnecting st" "max_retries st \<le> int (retries st)"
    "destroy (DestroyByReconnect clear) (st\<lparr>reconnecting := True\<rparr>) = (Some b, st1)"
  shows "fst (reconnect clear st) = Some False"
    and "gave_up (settle (DestroyResolved b) st1) (snd (reconnect clear st))"
proof -
  have same: "retries st1 = retries st" "settings st1 = settings st"
    using destroy_keeps_counter [where who="DestroyByReconnect clear" and st="st\<lparr>reconnecting := True\<rparr>"] assms(3)
    by simp_all
  have r: "reconnect clear st = reconnect_after_destroy clear (settle (DestroyResolved b) st1)"
    using assms by (simp add: reconnect_def)
  have "max_retries (settle (DestroyResolved b) st1) \<le> int (retries (settle (DestroyResolved b) st1))"
    using assms same by (simp add: max_retries_def)
  from reconnect_after_destroy_gives_up [OF this, of clear] r
  show "fst (reconnect clear st) = Some False"
    and "gave_up (settle (DestroyResolved b) st1) (snd (reconnect clear st))" by simp_all
qed

lemma reconnect_gives_up_at_close:
  assumes "\<not> reconnecting st" "max_retries st \<le> int (retries st)"
    "ws st = Some r" "sockets st r = Some w" "close_raises w = None" "\<not> close_event_fired w"
  shows "fst (reconnect clear st) = None"
    and "reconnecting (snd (reconnect clear st))"
    and "logged (snd (reconnect clear st)) = logged (echo_debug SOCKET_CLOSING st) \<or>
         logged (snd (reconnect clear st)) = logged st"
    and "\<exists>st'. deliver r (WsClose reason) (snd (reconnect clear st)) = Some st' \<and>
           \<not> reconnecting st' \<and> last (logged st') = (Fail, MAX_RETRIES_EXCEEDED) \<and>
           (if sessionStore (settings st) then last (store_calls st') = Clear else store_calls st' = store_calls st) \<and>
           last (settled st') = ReconnectResolved False \<and>
           timeouts st' = timeouts (snd (reconnect clear st)) \<and>
           loading st' = loading st \<and> next_socket st' = next_socket st \<and> ws st' = None \<and>
           retries st' = Suc (retries st) \<and> settings st' = settings st"
proof -
  define st0 where "st0 = st\<lparr>reconnecting := True\<rparr>"
  define st1 where "st1 = snd (destroy (DestroyByReconnect clear) st0)"
  have h: "ws st0 = Some r" "sockets st0 r = Some w"
    using assms by (simp_all add: st0_def)
  note D = destroy_closes [OF h assms(5), of "DestroyByReconnect clear"]
  note K = destroy_keeps_counter [of "DestroyByReconnect clear" st0]
  have r: "reconnect clear st = (None, st1)"
    using assms(1) D(1) unfolding st1_def st0_def
    by (cases "destroy (DestroyByReconnect clear) (st\<lparr>reconnecting := True\<rparr>)") (simp add: reconnect_def)
  show "fst (reconnect clear st) = None" using r by simp
  show "reconnecting (snd (reconnect clear st))" using r K by (simp add: st1_def st0_def)
  show "logged (snd (reconnect clear st)) = logged (echo_debug SOCKET_CLOSING st) \<or>
         logged (snd (reconnect clear st)) = logged st"
    using r h assms(5) by (auto simp: st1_def st0_def destroy_def Let_def echo_debug_def say_def split: option.splits)
  obtain w' where w': "sockets st1 r = Some w'" "onclose w' = Some (CloseResolvesDestroy (DestroyByReconnect clear))"
    "\<not> close_event_fired w'"
    using D(4) assms(6) by (auto simp: st1_def split: if_splits)
  define st2 where "st2 = st1\<lparr>sockets := (sockets st1)(r \<mapsto> w'\<lparr>readyState := WS_CLOSED, close_event_fired := True\<rparr>)\<rparr>"
  define st3 where "st3 = settle (DestroyResolved True) (echo_debug DESTROYED st2)"
  have d: "deliver r (WsClose reason) st1 = Some (snd (reconnect_after_destroy clear st3))"
    using w' by (simp add: deliver_def on_close_def destroy_resumed_def destroy_settled_def Let_def st2_def st3_def)
  have k3: "retries st3 = retries st" "settings st3 = settings st" "timeouts st3 = timeouts st1"
    "loading st3 = loading st" "next_socket st3 = next_socket st" "ws st3 = None" "store_calls st3 = store_calls st"
    using K D(2) by (simp_all add: st3_def st2_def st1_def st0_def)
  then have "max_retries st3 \<le> int (retries st3)"
    using assms(2) by (simp add: max_retries_def)
  from reconnect_after_destroy_gives_up [OF this, of clear]
  have g: "gave_up st3 (snd (reconnect_after_destroy clear st3))" by simp
  show "\<exists>st'. deliver r (WsClose reason) (snd (reconnect clear st)) = Some st' \<and>
           \<not> reconnecting st' \<and> last (logged st') = (Fail, MAX_RETRIES_EXCEEDED) \<and>
           (if sessionStore (settings st) then last (store_calls st') = Clear else store_calls st' = store_calls st) \<and>
           last (settled st') = ReconnectResolved False \<and>
           timeouts st' = timeouts (snd (reconnect clear st)) \<and>
           loading st' = loading st \<and> next_socket st' = next_socket st \<and> ws st' = None \<and>
           retries st' = Suc (retries st) \<and> settings st' = settings st"
    using d g k3 r
    by (auto simp: gave_up_def reconnect_after_destroy_def Let_def max_retries_def)
qed

lemma reconnect_hangs:
  assumes "\<not> reconnecting st" "ws st = Some r"
    "map_option readyState (sockets st r) = Some WS_CLOSED"
    "map_option close_event_fired (sockets st r) = Some True"
  shows "fst (reconnect clear st) = None"
    and "reconnecting (snd (reconnect clear st))"
    and "logged (snd (reconnect clear st)) = logged st"
    and "store_calls (snd (reconnect clear st)) = store_calls st"
    and "settled (snd (reconnect clear st)) = settled st"
    and "retries (snd (reconnect clear st)) = retries st"
    and "deliver r ev (snd (reconnect clear st)) = None"
    and "reconnect c (snd (reconnect clear st)) =
           (Some False, settle (ReconnectResolved False) (snd (reconnect clear st)))"
proof -
  define st0 where "st0 = st\<lparr>reconnecting := True\<rparr>"
  define st1 where "st1 = snd (destroy (DestroyByReconnect clear) st0)"
  from assms obtain w where w: "sockets st r = Some w" "readyState w = WS_CLOSED" "close_event_fired w"
    by auto
  have h: "ws st0 = Some r" "sockets st0 r = Some w"
    using assms w by (simp_all add: st0_def)
  note D = destroy_closed_socket [OF h w(2), of "DestroyByReconnect clear"]
  note K = destroy_keeps_counter [of "DestroyByReconnect clear" st0]
  have r: "reconnect clear st = (None, st1)"
    using assms(1) D(1) unfolding st1_def st0_def
    by (cases "destroy (DestroyByReconnect clear) (st\<lparr>reconnecting := True\<rparr>)") (simp add: reconnect_def)
  have rc: "reconnecting st1" using K by (simp add: st1_def st0_def)
  show "fst (reconnect clear st) = None" using r by simp
  show "reconnecting (snd (reconnect clear st))" using r rc by simp
  show "logged (snd (reconnect clear st)) = logged st" using r D(2) by (simp add: st1_def st0_def)
  show "store_calls (snd (reconnect clear st)) = store_calls st" using r K by (simp add: st1_def st0_def)
  show "settled (snd (reconnect clear st)) = settled st" using r K by (simp add: st1_def st0_def)
  show "retries (snd (reconnect clear st)) = retries st" using r K by (simp add: st1_def st0_def)
  show "deliver r ev (snd (reconnect clear st)) = None"
    using closed_socket_silent [where st=st1 and r=r and ev=ev] D(3) w r by (simp add: st1_def)
  show "reconnect c (snd (reconnect clear st)) =
           (Some False, settle (ReconnectResolved False) (snd (reconnect clear st)))"
    using r rc by (simp add: reconnect_def)
qed

lemma demo_failed_facts:
  "perform_all demo_failures (new_Socket demo_settings 0) = Some demo_failed \<and>
   settings demo_failed = demo_settings \<and> retries demo_failed = 5 \<and> \<not> reconnecting demo_failed \<and>
   ws demo_failed = Some 4 \<and> heartbeat demo_failed = None \<and> timeouts demo_failed = [] \<and>
   loading demo_failed = [] \<and> next_socket demo_failed = 5 \<and>
   sockets demo_failed 4 = Some \<lparr>readyState = WS_CLOSED, onopen = Some StartByReconnect,
     onerror = Some StartByReconnect, onclose = Some CloseWarns, onmessage = True, start_pending = False,
     outbox = [], close_calls = [], close_raises = None, close_event_fired = False\<rparr> \<and>
   store_calls demo_failed = [Load, Load, Load, Load, Load] \<and>
   last (logged demo_failed) = (Fail, Text ''[object Object]'') \<and>
   (Fail, MAX_RETRIES_EXCEEDED) \<notin> set (logged demo_failed) \<and>
   ReconnectResolved False \<notin> set (settled demo_failed)"
proof -
  have "\<exists>st. perform_all demo_failures (new_Socket demo_settings 0) = Some st \<and>
   settings st = demo_settings \<and> retries st = 5 \<and> \<not> reconnecting st \<and>
   ws st = Some 4 \<and> heartbeat st = None \<and> timeouts st = [] \<and>
   loading st = [] \<and> next_socket st = 5 \<and>
   sockets st 4 = Some \<lparr>readyState = WS_CLOSED, onopen = Some StartByReconnect,
     onerror = Some StartByReconnect, onclose = Some CloseWarns, onmessage = True, start_pending = False,
     outbox = [], close_calls = [], close_raises = None, close_event_fired = False\<rparr> \<and>
   store_calls st = [Load, Load, Load, Load, Load] \<and>
   last (logged st) = (Fail, Text ''[object Object]'') \<and>
   (Fail, MAX_RETRIES_EXCEEDED) \<notin> set (logged st) \<and>
   ReconnectResolved False \<notin> set (settled st)"
    by (simp add: demo_failures_def run_eval sock_eval)
  then obtain st where st: "perform_all demo_failures (new_Socket demo_settings 0) = Some st" and
   f: "settings st = demo_settings \<and> retries st = 5 \<and> \<not> reconnecting st \<and>
   ws st = Some 4 \<and> heartbeat st = None \<and> timeouts st = [] \<and>
   loading st = [] \<and> next_socket st = 5 \<and>
   sockets st 4 = Some \<lparr>readyState = WS_CLOSED, onopen = Some StartByReconnect,
     onerror = Some StartByReconnect, onclose = Some CloseWarns, onmessage = True, start_pending = False,
     outbox = [], close_calls = [], close_raises = None, close_event_fired = False\<rparr> \<and>
   store_calls st = [Load, Load, Load, Load, Load] \<and>
   last (logged st) = (Fail, Text ''[object Object]'') \<and>
   (Fail, MAX_RETRIES_EXCEEDED) \<notin> set (logged st) \<and>
   ReconnectResolved False \<notin> set (settled st)"
    by blast
  have "demo_failed = st" using st by (simp add: demo_failed_def performed_def)
  with st f show ?thesis by simp
qed

lemma demo_failed_closed_eq:
  "perform_all [Runtime 4 (WsClose [])] demo_failed = Some demo_failed_closed \<and>
   demo_failed_closed = demo_failed\<lparr>sockets := (sockets demo_failed)(4 \<mapsto>
     \<lparr>readyState = WS_CLOSED, onopen = Some StartByReconnect,
     onerror = Some StartByReconnect, onclose = Some CloseWarns, onmessage = True, start_pending = False,
     outbox = [], close_calls = [], close_raises = None, close_event_fired = True\<rparr>)\<rparr>"
  using demo_failed_facts
  by (simp add: demo_failed_closed_def performed_def deliver_def on_close_def warn_warns_def demo_settings_def)

lemma demo_retrying_facts:
  "perform_all [CallReconnect False, Advance 1000, TimerFires 0, LoadDone None] (new_Socket demo_settings 0)
     = Some demo_retrying \<and>
   retries demo_retrying = 1 \<and> reconnecting demo_retrying \<and> ws demo_retrying = Some 0 \<and>
   sockets demo_retrying 0 = Some \<lparr>readyState = WS_CONNECTING, onopen = Some StartByReconnect,
     onerror = Some StartByReconnect, onclose = Some CloseWarns, onmessage = True, start_pending = True,
     outbox = [], close_calls = [], close_raises = None, close_event_fired = False\<rparr>"
  by (simp add: demo_retrying_def run_eval sock_eval)

text \<open>
  C3, evaluated on the code. The maximum is \<open>settings.maxRetries\<close>, 5 when it is not given.
  When \<open>reconnect\<close> reaches its retry check with the counter at or above the maximum, it
  logs \<open>MAX_RETRIES_EXCEEDED\<close> as a failure, calls \<open>clear\<close> on the session store (when there
  is one), resets the in-flight flag and returns \<open>false\<close>, and it sets no timer, opens no
  socket and starts no \<open>load\<close>; and when the socket opened by the timer callback of
  \<open>reconnect\<close> opens, the counter is reset to 0 and the promise resolves \<open>true\<close>. But
  \<open>reconnect\<close> awaits \<open>destroy\<close> before the check, and the check is reached only when
  \<open>destroy\<close> returns: at once inside the call, or at the close event of the old socket when
  that event is still to come. When the current socket has closed already and its close
  event has been dispatched, a call of \<open>reconnect\<close> does not return, whatever the counter,
  so also with the counter at the maximum: it logs nothing, clears nothing and settles
  nothing, no event of that socket resumes it, and since it leaves the in-flight flag
  set, every later call of \<open>reconnect\<close> returns \<open>false\<close> at its guard.
\<close>

theorem reconnect_at_max_retries:
  "(maxRetries (settings st) = None \<longrightarrow> max_retries st = 5) \<and>
   (maxRetries (settings st) = Some m \<longrightarrow> max_retries st = m) \<and>
   (\<not> reconnecting st \<and> ws st = Some r \<and>
    map_option readyState (sockets st r) = Some WS_CLOSED \<and>
    map_option close_event_fired (sockets st r) = Some True \<longrightarrow>
      fst (reconnect clear st) = None \<and>
      reconnecting (snd (reconnect clear st)) \<and>
      logged (snd (reconnect clear st)) = logged st \<and>
      store_calls (snd (reconnect clear st)) = store_calls st \<and>
      settled (snd (reconnect clear st)) = settled st \<and>
      retries (snd (reconnect clear st)) = retries st \<and>
      (\<forall>ev. deliver r ev (snd (reconnect clear st)) = None) \<and>
      (\<forall>c. reconnect c (snd (reconnect clear st)) =
             (Some False, settle (ReconnectResolved False) (snd (reconnect clear st))))) \<and>
   (\<not> reconnecting st \<and> max_retries st \<le> int (retries st) \<and>
    destroy (DestroyByReconnect clear) (st\<lparr>reconnecting := True\<rparr>) = (Some b, st1) \<longrightarrow>
      fst (reconnect clear st) = Some False \<and>
      gave_up (settle (DestroyResolved b) st1) (snd (reconnect clear st))) \<and>
   (\<not> reconnecting st \<and> max_retries st \<le> int (retries st) \<and> ws st = Some r \<and> sockets st r = Some w \<and>
    close_raises w = None \<and> \<not> close_event_fired w \<longrightarrow>
      fst (reconnect clear st) = None \<and>
      reconnecting (snd (reconnect clear st)) \<and>
      (\<exists>st'. deliver r (WsClose reason) (snd (reconnect clear st)) = Some st' \<and>
           \<not> reconnecting st' \<and> last (logged st') = (Fail, MAX_RETRIES_EXCEEDED) \<and>
           (if sessionStore (settings st) then last (store_calls st') = Clear
            else store_calls st' = store_calls st) \<and>
           last (settled st') = ReconnectResolved False \<and>
           timeouts st' = timeouts (snd (reconnect clear st)) \<and>
           loading st' = loading st \<and> next_socket st' = next_socket st \<and> ws st' = None \<and>
           retries st' = Suc (retries st) \<and> settings st' = settings st)) \<and>
   (sockets st r = Some w \<and> readyState w = WS_CONNECTING \<and> onopen w = Some StartByReconnect \<and>
    start_pending w \<and> deliver r WsOpen st = Some st' \<longrightarrow>
      retries st' = 0 \<and> \<not> reconnecting st' \<and> last (settled st') = ReconnectResolved True)"
proof (intro conjI impI allI)
  assume "maxRetries (settings st) = None"
  then show "max_retries st = 5" by (rule default_max_retries)
next
  assume "maxRetries (settings st) = Some m"
  then show "max_retries st = m" by (simp add: max_retries_def)
next
  assume a: "\<not> reconnecting st \<and> ws st = Some r \<and>
    map_option readyState (sockets st r) = Some WS_CLOSED \<and>
    map_option close_event_fired (sockets st r) = Some True"
  then have h: "\<not> reconnecting st" "ws st = Some r" "map_option readyState (sockets st r) = Some WS_CLOSED"
    "map_option close_event_fired (sockets st r) = Some True"
    by simp_all
  note H = reconnect_hangs [OF h]
  show "fst (reconnect clear st) = None" by (rule H)
  show "reconnecting (snd (reconnect clear st))" by (rule H)
  show "logged (snd (reconnect clear st)) = logged st" by (rule H)
  show "store_calls (snd (reconnect clear st)) = store_calls st" by (rule H)
  show "settled (snd (reconnect clear st)) = settled st" by (rule H)
  show "retries (snd (reconnect clear st)) = retries st" by (rule H)
  show "deliver r ev (snd (reconnect clear st)) = None" for ev by (rule H)
  show "reconnect c (snd (reconnect clear st)) =
             (Some False, settle (ReconnectResolved False) (snd (reconnect clear st)))" for c by (rule H)
next
  assume a: "\<not> reconnecting st \<and> max_retries st \<le> int (retries st) \<and>
    destroy (DestroyByReconnect clear) (st\<lparr>reconnecting := True\<rparr>) = (Some b, st1)"
  then have h: "\<not> reconnecting st" "max_retries st \<le> int (retries st)"
    "destroy (DestroyByReconnect clear) (st\<lparr>reconnecting := True\<rparr>) = (Some b, st1)"
    by simp_all
  show "fst (reconnect clear st) = Some False"
    and "gave_up (settle (DestroyResolved b) st1) (snd (reconnect clear st))"
    by (rule reconnect_gives_up_in_call [OF h])+
next
  assume a: "\<not> reconnecting st \<and> max_retries st \<le> int (retries st) \<and> ws st = Some r \<and> sockets st r = Some w \<and>
    close_raises w = None \<and> \<not> close_event_fired w"
  then have h: "\<not> reconnecting st" "max_retries st \<le> int (retries st)" "ws st = Some r" "sockets st r = Some w"
    "close_raises w = None" "\<not> close_event_fired w"
    by simp_all
  note G = reconnect_gives_up_at_close [OF h]
  show "fst (reconnect clear st) = None" by (rule G)
  show "reconnecting (snd (reconnect clear st))" by (rule G)
  show "\<exists>st'. deliver r (WsClose reason) (snd (reconnect clear st)) = Some st' \<and>
           \<not> reconnecting st' \<and> last (logged st') = (Fail, MAX_RETRIES_EXCEEDED) \<and>
           (if sessionStore (settings st) then last (store_calls st') = Clear
            else store_calls st' = store_calls st) \<and>
           last (settled st') = ReconnectResolved False \<and>
           timeouts st' = timeouts (snd (reconnect clear st)) \<and>
           loading st' = loading st \<and> next_socket st' = next_socket st \<and> ws st' = None \<and>
           retries st' = Suc (retries st) \<and> settings st' = settings st"
    by (rule G)
next
  assume a: "sockets st r = Some w \<and> readyState w = WS_CONNECTING \<and> onopen w = Some StartByReconnect \<and>
    start_pending w \<and> deliver r WsOpen st = Some st'"
  then show "retries st' = 0" and "\<not> reconnecting st'" and "last (settled st') = ReconnectResolved True"
    using reconnect_success_resets [where st=st and r=r and w=w and st'=st'] by simp_all
qed

theorem reconnect_at_max_retries_witness:
  "perform_all demo_failures (new_Socket demo_settings 0) = Some demo_failed \<and>
   perform_all [Runtime 4 (WsClose [])] demo_failed = Some demo_failed_closed \<and>
   maxRetries (settings demo_failed_closed) = None \<and> max_retries demo_failed_closed = 5 \<and>
   retries demo_failed_closed = 5 \<and> \<not> reconnecting demo_failed_closed \<and> ws demo_failed_closed = Some 4 \<and>
   fst (reconnect False demo_failed_closed) = None \<and>
   reconnecting (snd (reconnect False demo_failed_closed)) \<and>
   (Fail, MAX_RETRIES_EXCEEDED) \<notin> set (logged (snd (reconnect False demo_failed_closed))) \<and>
   Clear \<notin> set (store_calls (snd (reconnect False demo_failed_closed))) \<and>
   ReconnectResolved False \<notin> set (settled (snd (reconnect False demo_failed_closed))) \<and>
   deliver 4 (WsClose []) (snd (reconnect False demo_failed_closed)) = None \<and>
   fst (reconnect False (snd (reconnect False demo_failed_closed))) = Some False \<and>
   fst (reconnect False demo_failed) = None \<and>
   deliver 4 (WsClose []) (snd (reconnect False demo_failed)) \<noteq> None \<and>
   last (logged (the (deliver 4 (WsClose []) (snd (reconnect False demo_failed))))) = (Fail, MAX_RETRIES_EXCEEDED) \<and>
   last (store_calls (the (deliver 4 (WsClose []) (snd (reconnect False demo_failed))))) = Clear \<and>
   last (settled (the (deliver 4 (WsClose []) (snd (reconnect False demo_failed))))) = ReconnectResolved False \<and>
   fst (reconnect False (the (deliver 4 (WsClose []) (snd (reconnect False demo_failed))))) = Some False \<and>
   last (logged (snd (reconnect False (the (deliver 4 (WsClose []) (snd (reconnect False demo_failed)))))))
     = (Fail, MAX_RETRIES_EXCEEDED) \<and>
   retries demo_retrying = 1 \<and> deliver 0 WsOpen demo_retrying \<noteq> None \<and>
   retries (the (deliver 0 WsOpen demo_retrying)) = 0"
proof -
  note F = demo_failed_facts
  note E = demo_failed_closed_eq
  have c: "maxRetries (settings demo_failed_closed) = None" "retries demo_failed_closed = 5"
    "\<not> reconnecting demo_failed_closed" "ws demo_failed_closed = Some 4"
    "map_option readyState (sockets demo_failed_closed 4) = Some WS_CLOSED"
    "map_option close_event_fired (sockets demo_failed_closed 4) = Some True"
    "logged demo_failed_closed = logged demo_failed" "store_calls demo_failed_closed = store_calls demo_failed"
    "settled demo_failed_closed = settled demo_failed"
    using F by (simp_all add: E demo_settings_def)
  note T = reconnect_at_max_retries [where st=demo_failed_closed and r=4 and clear=False]
  have m: "max_retries demo_failed_closed = 5" using T c(1) by simp
  have hang: "fst (reconnect False demo_failed_closed) = None"
    "reconnecting (snd (reconnect False demo_failed_closed))"
    "logged (snd (reconnect False demo_failed_closed)) = logged demo_failed"
    "store_calls (snd (reconnect False demo_failed_closed)) = store_calls demo_failed"
    "settled (snd (reconnect False demo_failed_closed)) = settled demo_failed"
    "deliver 4 (WsClose []) (snd (reconnect False demo_failed_closed)) = None"
    "fst (reconnect False (snd (reconnect False demo_failed_closed))) = Some False"
    using T c m by simp_all
  note U = reconnect_at_max_retries [where st=demo_failed and r=4 and clear=False and reason="[]"
      and w="\<lparr>readyState = WS_CLOSED, onopen = Some StartByReconnect,
     onerror = Some StartByReconnect, onclose = Some CloseWarns, onmessage = True, start_pending = False,
     outbox = [], close_calls = [], close_raises = None, close_event_fired = False\<rparr>"]
  have m': "max_retries demo_failed = 5" using F by (simp add: max_retries_def demo_settings_def)
  define g where "g = the (deliver 4 (WsClose []) (snd (reconnect False demo_failed)))"
  have "fst (reconnect False demo_failed) = None \<and>
     (\<exists>st'. deliver 4 (WsClose []) (snd (reconnect False demo_failed)) = Some st' \<and>
        last (logged st') = (Fail, MAX_RETRIES_EXCEEDED) \<and> last (store_calls st') = Clear \<and>
        last (settled st') = ReconnectResolved False \<and> \<not> reconnecting st' \<and> ws st' = None \<and>
        retries st' = 6 \<and> settings st' = demo_settings)"
    using U F m' by (auto simp: demo_settings_def)
  then have up: "fst (reconnect False demo_failed) = None"
    "deliver 4 (WsClose []) (snd (reconnect False demo_failed)) \<noteq> None"
    "last (logged g) = (Fail, MAX_RETRIES_EXCEEDED)"
    "last (store_calls g) = Clear"
    "last (settled g) = ReconnectResolved False"
    and g: "\<not> reconnecting g" "ws g = None" "retries g = 6" "settings g = demo_settings"
    unfolding g_def by auto
  have gd: "destroy (DestroyByReconnect False) (g\<lparr>reconnecting := True\<rparr>) =
      (Some True, snd (destroy (DestroyByReconnect False) (g\<lparr>reconnecting := True\<rparr>)))"
    using destroy_no_socket [of "g\<lparr>reconnecting := True\<rparr>" "DestroyByReconnect False"] g(2)
    by (simp add: prod_eq_iff)
  note W = reconnect_at_max_retries [where st=g and clear=False and b=True
      and ?st1.0="snd (destroy (DestroyByReconnect False) (g\<lparr>reconnecting := True\<rparr>))"]
  have mg: "max_retries g = 5" using g by (simp add: max_retries_def demo_settings_def)
  have again: "fst (reconnect False g) = Some False"
    "last (logged (snd (reconnect False g))) = (Fail, MAX_RETRIES_EXCEEDED)"
    using W g mg gd by (simp_all add: gave_up_def)
  note R = demo_retrying_facts
  have o: "deliver 0 WsOpen demo_retrying \<noteq> None"
    using R by (simp add: deliver_def)
  then have o': "deliver 0 WsOpen demo_retrying = Some (the (deliver 0 WsOpen demo_retrying))" by simp
  note V = reconnect_at_max_retries [where st=demo_retrying and r=0 and st'="the (deliver 0 WsOpen demo_retrying)"
      and w="\<lparr>readyState = WS_CONNECTING, onopen = Some StartByReconnect,
     onerror = Some StartByReconnect, onclose = Some CloseWarns, onmessage = True, start_pending = True,
     outbox = [], close_calls = [], close_raises = None, close_event_fired = False\<rparr>"]
  have ok: "retries (the (deliver 0 WsOpen demo_retrying)) = 0"
    using V R o' by simp
  from F E c m hang up again R o ok show ?thesis unfolding g_def by simp
qed

subsection \<open>Received frames\<close>

lemma reconnect_after_destroy_False_session:
  "lastSequence (snd (reconnect_after_destroy False st)) = lastSequence st \<and>
   sessionId (snd (reconnect_after_destroy False st)) = sessionId st \<and>
   take (length (store_calls st)) (store_calls (snd (reconnect_after_destroy False st))) = store_calls st"
  by (auto simp: reconnect_after_destroy_def Let_def)

lemma reconnect_False_session:
  "lastSequence (snd (reconnect False st)) = lastSequence st \<and>
   sessionId (snd (reconnect False st)) = sessionId st \<and>
   take (length (store_calls st)) (store_calls (snd (reconnect False st))) = store_calls st"
proof (cases "reconnecting st")
  case True
  then show ?thesis by (simp add: reconnect_def)
next
  case False
  obtain res st' where d: "destroy (DestroyByReconnect False) (st\<lparr>reconnecting := True\<rparr>) = (res, st')"
    by (cases "destroy (DestroyByReconnect False) (st\<lparr>reconnecting := True\<rparr>)") auto
  from destroy_keeps_counter [of "DestroyByReconnect False" "st\<lparr>reconnecting := True\<rparr>"] d
  have k: "lastSequence st' = lastSequence st" "sessionId st' = sessionId st"
    "store_calls st' = store_calls st" by simp_all
  show ?thesis
  proof (cases res)
    case None
    with False d k show ?thesis by (simp add: reconnect_def)
  next
    case (Some b)
    with False d k reconnect_after_destroy_False_session [of "settle (DestroyResolved b) st'"]
    show ?thesis by (simp add: reconnect_def)
  qed
qed

lemma note_sequence_nonzero:
  assumes "n \<noteq> 0"
  shows "lastSequence (note_sequence (Some n) st) = Some n"
    and "sessionId (note_sequence (Some n) st) = sessionId st"
    and "store_calls (note_sequence (Some n) st) =
           (if truthy_str (sessionId st) \<and> sessionStore (settings st)
            then store_calls st @ [Save (the (sessionId st)) n] else store_calls st)"
  using assms by (auto simp: note_sequence_def Let_def split: option.splits)

lemma call_handler_session:
  "lastSequence (call_handler name dd st) = lastSequence st \<and>
   take (length (store_calls st)) (store_calls (call_handler name dd st)) = store_calls st"
  by (auto simp: call_handler_def Let_def split: option.splits)

lemma on_Dispatch_session:
  "lastSequence (on_Dispatch tt dd st) = lastSequence st \<and>
   take (length (store_calls st)) (store_calls (on_Dispatch tt dd st)) = store_calls st"
  by (auto simp: on_Dispatch_def call_handler_def Let_def split: option.splits payload.splits)

lemma send_or_throw_session:
  "lastSequence (send_or_throw p st) = lastSequence st \<and> store_calls (send_or_throw p st) = store_calls st"
  by (auto simp: send_or_throw_def ws_send_def split: option.splits sum.splits readyState.splits)

lemma on_Hello_session:
  "lastSequence (on_Hello dd st) = lastSequence st \<and> store_calls (on_Hello dd st) = store_calls st"
  by (auto simp: on_Hello_def Let_def send_or_throw_session split: payload.splits)

lemma after_sequence:
  assumes "frame_op f \<noteq> InvalidSession"
  shows "lastSequence (handleMessage (Inr f) st) = lastSequence (note_sequence (frame_s f) st) \<and>
         take (length (store_calls (note_sequence (frame_s f) st))) (store_calls (handleMessage (Inr f) st))
           = store_calls (note_sequence (frame_s f) st)"
  using assms on_Hello_session [of "frame_d f" "note_sequence (frame_s f) st"]
    on_Dispatch_session [of "frame_t f" "frame_d f" "note_sequence (frame_s f) st"]
    reconnect_False_session [of "echo_debug RECONNECT (note_sequence (frame_s f) st)"]
  by (cases "frame_op f") (auto simp: handleMessage_def Let_def)

lemmas msg_eval = handleMessage_def note_sequence_def on_Dispatch_def call_handler_def on_InvalidSession_def
  on_Hello_def send_or_throw_def ws_send_def demo_session_def demo_frame_def

text \<open>
  C6 as stated fails on the code at two inputs. A frame with sequence number 0 leaves
  \<open>lastSequence\<close> at 41 and saves nothing, because the guard \<open>if (s)\<close> is false for 0. A
  frame with sequence number 42 received while the session id is the empty string saves
  nothing, because the guard \<open>if (this._sessionId)\<close> is false for the empty string.
\<close>

theorem sequence_zero_counterexample:
  "lastSequence (handleMessage (Inr (demo_frame 0)) demo_session) = Some 41 \<and>
   store_calls (handleMessage (Inr (demo_frame 0)) demo_session) = [] \<and>
   lastSequence (handleMessage (Inr (demo_frame 42)) (demo_session\<lparr>sessionId := Some []\<rparr>)) = Some 42 \<and>
   store_calls (handleMessage (Inr (demo_frame 42)) (demo_session\<lparr>sessionId := Some []\<rparr>)) = []"
  by (simp add: msg_eval sock_eval)

text \<open>
  C6, amended. A received sequence number \<open>n\<close> other than 0 becomes \<open>lastSequence\<close>, and
  when the session id is known and not empty and a session store is configured,
  \<open>save({sessionId, seq: n})\<close> is called on that frame (a sequence number 0 changes
  nothing). For every frame but InvalidSession this is also the state of \<open>lastSequence\<close>
  when \<open>_handleMessage\<close> is done, and the save is the first call the frame adds to the
  store.
\<close>

theorem sequence_write_through:
  "(n \<noteq> 0 \<longrightarrow>
      lastSequence (note_sequence (Some n) st) = Some n \<and>
      (sessionId st = Some sid \<and> sid \<noteq> [] \<and> sessionStore (settings st) \<longrightarrow>
         store_calls (note_sequence (Some n) st) = store_calls st @ [Save sid n])) \<and>
   note_sequence (Some 0) st = st \<and>
   (frame_s f = Some n \<and> n \<noteq> 0 \<and> frame_op f \<noteq> InvalidSession \<longrightarrow>
      lastSequence (handleMessage (Inr f) st) = Some n \<and>
      (sessionId st = Some sid \<and> sid \<noteq> [] \<and> sessionStore (settings st) \<longrightarrow>
         take (Suc (length (store_calls st))) (store_calls (handleMessage (Inr f) st))
           = store_calls st @ [Save sid n]))"
proof (intro conjI impI)
  assume "n \<noteq> 0"
  then show "lastSequence (note_sequence (Some n) st) = Some n"
    by (simp add: note_sequence_nonzero)
next
  assume "n \<noteq> 0" and "sessionId st = Some sid \<and> sid \<noteq> [] \<and> sessionStore (settings st)"
  then show "store_calls (note_sequence (Some n) st) = store_calls st @ [Save sid n]"
    by (simp add: note_sequence_nonzero)
next
  show "note_sequence (Some 0) st = st"
    by (simp add: note_sequence_def)
next
  assume a: "frame_s f = Some n \<and> n \<noteq> 0 \<and> frame_op f \<noteq> InvalidSession"
  with after_sequence [of f st] show "lastSequence (handleMessage (Inr f) st) = Some n"
    by (simp add: note_sequence_nonzero)
  assume b: "sessionId st = Some sid \<and> sid \<noteq> [] \<and> sessionStore (settings st)"
  with a have "store_calls (note_sequence (frame_s f) st) = store_calls st @ [Save sid n]"
    by (simp add: note_sequence_nonzero)
  with a after_sequence [of f st]
  show "take (Suc (length (store_calls st))) (store_calls (handleMessage (Inr f) st))
           = store_calls st @ [Save sid n]"
    by simp
qed

theorem sequence_write_through_witness:
  "lastSequence (note_sequence (Some 42) demo_session) = Some 42 \<and>
   store_calls (note_sequence (Some 42) demo_session) = [Save ''abc'' 42] \<and>
   lastSequence (handleMessage (Inr (demo_frame 42)) demo_session) = Some 42 \<and>
   take (Suc 0) (store_calls (handleMessage (Inr (demo_frame 42)) demo_session)) = [Save ''abc'' 42]"
proof -
  have h: "(42::int) \<noteq> 0" "sessionId demo_session = Some ''abc''" "''abc'' \<noteq> []"
    "sessionStore (settings demo_session)" "store_calls demo_session = []"
    "frame_s (demo_frame 42) = Some 42" "frame_op (demo_frame 42) \<noteq> InvalidSession"
    by (simp_all add: demo_session_def demo_frame_def sock_eval)
  from sequence_write_through [where n=42 and st=demo_session and sid="''abc''" and f="demo_frame 42"] h
  show ?thesis by simp
qed

subsection \<open>InvalidSession\<close>

lemma note_sequence_fields:
  "ws (note_sequence sq st) = ws st \<and> sockets (note_sequence sq st) = sockets st \<and>
   settings (note_sequence sq st) = settings st \<and> reconnecting (note_sequence sq st) = reconnecting st \<and>
   retries (note_sequence sq st) = retries st \<and> loading (note_sequence sq st) = loading st \<and>
   next_socket (note_sequence sq st) = next_socket st \<and> next_timer (note_sequence sq st) = next_timer st \<and>
   now (note_sequence sq st) = now st \<and> timeouts (note_sequence sq st) = timeouts st \<and>
   heartbeat (note_sequence sq st) = heartbeat st \<and> settled (note_sequence sq st) = settled st \<and>
   sessionId (note_sequence sq st) = sessionId st \<and> logged (note_sequence sq st) = logged st \<and>
   (\<not> sessionStore (settings st) \<longrightarrow> store_calls (note_sequence sq st) = store_calls st)"
  by (auto simp: note_sequence_def Let_def store_save_def split: option.splits)

lemma resume_sent:
  assumes "frame_op f = InvalidSession" "truthy_payload (frame_d f)"
    "sessionId st = Some sid" "sid \<noteq> []" "lastSequence (note_sequence (frame_s f) st) = Some sq"
    "ws st = Some r" "sockets st r = Some w" "readyState w = WS_OPEN"
  shows "sockets (handleMessage (Inr f) st) r = Some (w\<lparr>outbox := outbox w @ [SendResume (token (settings st)) sid sq]\<rparr>)"
    and "settled (handleMessage (Inr f) st) = settled st"
    and "reconnecting (handleMessage (Inr f) st) = reconnecting st"
    and "sessionId (handleMessage (Inr f) st) = Some sid"
    and "lastSequence (handleMessage (Inr f) st) = Some sq"
    and "ws (handleMessage (Inr f) st) = Some r"
proof -
  define st1 where "st1 = note_sequence (frame_s f) st"
  have k: "sessionId st1 = Some sid" "ws st1 = Some r" "sockets st1 r = Some w" "settings st1 = settings st"
    "settled st1 = settled st" "reconnecting st1 = reconnecting st" "lastSequence st1 = Some sq"
    using assms note_sequence_fields [of "frame_s f" st] by (simp_all add: st1_def)
  have h: "handleMessage (Inr f) st =
      send_or_throw (SendResume (token (settings st1)) sid sq) (echo_debug RESUME (warn_warns INVALID_SESSION st1))"
    using assms(1,2,4) k by (simp add: handleMessage_def on_InvalidSession_def Let_def st1_def)
  show "sockets (handleMessage (Inr f) st) r = Some (w\<lparr>outbox := outbox w @ [SendResume (token (settings st)) sid sq]\<rparr>)"
    and "settled (handleMessage (Inr f) st) = settled st"
    and "reconnecting (handleMessage (Inr f) st) = reconnecting st"
    and "sessionId (handleMessage (Inr f) st) = Some sid"
    and "lastSequence (handleMessage (Inr f) st) = Some sq"
    and "ws (handleMessage (Inr f) st) = Some r"
    using k assms(8) by (simp_all add: h send_or_throw_def ws_send_def)
qed

lemma reconnect_called:
  assumes "frame_op f = InvalidSession"
    "\<not> (truthy_payload (frame_d f) \<and> truthy_str (sessionId st) \<and> lastSequence (note_sequence (frame_s f) st) \<noteq> None)"
  shows "handleMessage (Inr f) st =
     snd (reconnect True (echo_debug RECONNECT (warn_warns INVALID_SESSION (note_sequence (frame_s f) st))))"
proof -
  define st1 where "st1 = note_sequence (frame_s f) st"
  have k: "sessionId st1 = sessionId st"
    by (auto simp: st1_def note_sequence_def Let_def split: option.splits)
  show ?thesis
    using assms k
    by (auto simp: handleMessage_def on_InvalidSession_def Let_def st1_def split: option.splits)
qed

lemma reconnect_keeps_outbox:
  "map_option outbox (sockets (snd (reconnect clear st)) r) = map_option outbox (sockets st r)"
proof (cases "reconnecting st")
  case True
  then show ?thesis by (simp add: reconnect_def)
next
  case False
  define st0 where "st0 = st\<lparr>reconnecting := True\<rparr>"
  have o: "map_option outbox (sockets (snd (destroy (DestroyByReconnect clear) st0)) r) = map_option outbox (sockets st r)"
    using destroy_keeps_outbox [of "DestroyByReconnect clear" st0 r] by (simp add: st0_def)
  have s: "sockets (snd (reconnect_after_destroy clear st')) = sockets st'" for st'
    by (auto simp: reconnect_after_destroy_def Let_def)
  show ?thesis
    using False o s unfolding st0_def
    by (cases "destroy (DestroyByReconnect clear) (st\<lparr>reconnecting := True\<rparr>)")
       (auto simp: reconnect_def split: option.splits)
qed

text \<open>The first step of \<open>reconnect(true)\<close> on an open socket: the socket is closed with code
  1000 and \<open>reconnect\<close> waits for its close event.\<close>

lemma invalid_session_closes:
  assumes "frame_op f = InvalidSession"
    "\<not> (truthy_payload (frame_d f) \<and> truthy_str (sessionId st) \<and> lastSequence (note_sequence (frame_s f) st) \<noteq> None)"
    "ws st = Some r" "sockets st r = Some w" "readyState w = WS_OPEN" "close_raises w = None" "\<not> reconnecting st"
  shows "ws (handleMessage (Inr f) st) = None"
    and "reconnecting (handleMessage (Inr f) st)"
    and "sockets (handleMessage (Inr f) st) r =
           Some (w\<lparr>onclose := Some (CloseResolvesDestroy (DestroyByReconnect True)), readyState := WS_CLOSING,
                   close_calls := close_calls w @ [(1000, DESTROYED)],
                   onopen := None, onmessage := False, onerror := None\<rparr>)"
    and "retries (handleMessage (Inr f) st) = retries st"
    and "settings (handleMessage (Inr f) st) = settings st"
    and "loading (handleMessage (Inr f) st) = loading st"
    and "next_socket (handleMessage (Inr f) st) = next_socket st"
    and "next_timer (handleMessage (Inr f) st) = next_timer st"
    and "now (handleMessage (Inr f) st) = now st"
    and "sessionId (handleMessage (Inr f) st) = sessionId st"
    and "store_calls (handleMessage (Inr f) st) = store_calls (note_sequence (frame_s f) st)"
proof -
  define stA where "stA = (echo_debug RECONNECT (warn_warns INVALID_SESSION (note_sequence (frame_s f) st)))\<lparr>reconnecting := True\<rparr>"
  note N = note_sequence_fields [of "frame_s f" st]
  have A: "ws stA = Some r" "sockets stA r = Some w" "retries stA = retries st" "settings stA = settings st"
    "loading stA = loading st" "next_socket stA = next_socket st" "next_timer stA = next_timer st"
    "now stA = now st" "sessionId stA = sessionId st" "store_calls stA = store_calls (note_sequence (frame_s f) st)"
    "reconnecting stA"
    using N assms by (simp_all add: stA_def)
  note D = destroy_closes [OF A(1,2) assms(6), of "DestroyByReconnect True"]
  note K = destroy_keeps_counter [of "DestroyByReconnect True" stA]
  have "\<not> reconnecting (echo_debug RECONNECT (warn_warns INVALID_SESSION (note_sequence (frame_s f) st)))"
    using N assms(7) by simp
  then have h: "handleMessage (Inr f) st = snd (destroy (DestroyByReconnect True) stA)"
    using reconnect_called [OF assms(1,2)] D(1) unfolding stA_def
    by (cases "destroy (DestroyByReconnect True)
         ((echo_debug RECONNECT (warn_warns INVALID_SESSION (note_sequence (frame_s f) st)))\<lparr>reconnecting := True\<rparr>)")
       (simp add: reconnect_def)
  show "ws (handleMessage (Inr f) st) = None" using D(2) h by simp
  show "reconnecting (handleMessage (Inr f) st)" using K A h by simp
  show "sockets (handleMessage (Inr f) st) r =
           Some (w\<lparr>onclose := Some (CloseResolvesDestroy (DestroyByReconnect True)), readyState := WS_CLOSING,
                   close_calls := close_calls w @ [(1000, DESTROYED)],
                   onopen := None, onmessage := False, onerror := None\<rparr>)"
    using D(4) h assms(5) by simp
  show "retries (handleMessage (Inr f) st) = retries st" using K A h by simp
  show "settings (handleMessage (Inr f) st) = settings st" using K A h by simp
  show "loading (handleMessage (Inr f) st) = loading st" using K A h by simp
  show "next_socket (handleMessage (Inr f) st) = next_socket st" using K A h by simp
  show "next_timer (handleMessage (Inr f) st) = next_timer st" using K A h by simp
  show "now (handleMessage (Inr f) st) = now st" using K A h by simp
  show "sessionId (handleMessage (Inr f) st) = sessionId st" using K A h by simp
  show "store_calls (handleMessage (Inr f) st) = store_calls (note_sequence (frame_s f) st)" using K A h by simp
qed

text \<open>The close event resumes \<open>destroy\<close> and with it \<open>reconnect(clear)\<close>, which below the
  maximum sets its backoff timer after having forgotten the session.\<close>

lemma close_resumes_reconnect:
  assumes "sockets st r = Some w" "onclose w = Some (CloseResolvesDestroy (DestroyByReconnect clear))"
    "\<not> close_event_fired w" "int (retries st) < max_retries st"
  shows "\<exists>st'. deliver r (WsClose reason) st = Some st' \<and>
     (clear \<longrightarrow> sessionId st' = None \<and> lastSequence st' = None \<and>
        (if sessionStore (settings st) then last (store_calls st') = Clear else store_calls st' = store_calls st)) \<and>
     timeouts st' = timeouts st @ [(next_timer st, now st + int (backoff (retries st)), ReconnectBackoff)] \<and>
     ws st' = ws st \<and> loading st' = loading st \<and> next_socket st' = next_socket st \<and>
     settings st' = settings st \<and> now st' = now st \<and> retries st' = Suc (retries st) \<and>
     reconnecting st' = reconnecting st \<and>
     last (settled st') = DestroyResolved True"
  using assms
  by (auto simp: deliver_def on_close_def destroy_resumed_def destroy_settled_def reconnect_after_destroy_def
      Let_def max_retries_def)

lemma start_keeps:
  "retries (start who st) = retries st \<and> reconnecting (start who st) = reconnecting st \<and>
   now (start who st) = now st \<and> sessionId (start who st) = sessionId st \<and>
   lastSequence (start who st) = lastSequence st \<and> settled (start who st) = settled st"
  by (simp add: start_def Let_def)

text \<open>\<open>start\<close> after its \<open>await\<close>, on the socket it has opened.\<close>

lemma load_done_attaches:
  assumes "loading st = [who]" "ws st = Some r" "sockets st r = Some w" "load_done resumeData st = Some st'"
  shows "ws st' = Some r \<and> loading st' = [] \<and> settings st' = settings st \<and>
    retries st' = retries st \<and> reconnecting st' = reconnecting st \<and> settled st' = settled st \<and>
    sockets st' r = Some (w\<lparr>onopen := Some who, onclose := Some CloseWarns, onerror := Some who,
                          onmessage := True, start_pending := True\<rparr>)"
  using assms by (auto simp: load_done_def start_attach_def Let_def split: if_splits option.splits)

text \<open>The open event of a socket on which \<open>start\<close> is pending for \<open>reconnect\<close>.\<close>

lemma open_resolves_reconnect:
  assumes "sockets st r = Some w" "onopen w = Some StartByReconnect" "start_pending w"
    "deliver r WsOpen st = Some st'"
  shows "ws st' = ws st \<and> settings st' = settings st \<and> retries st' = 0 \<and> \<not> reconnecting st' \<and>
    last (settled st') = ReconnectResolved True \<and>
    sockets st' r = Some (w\<lparr>readyState := WS_OPEN, start_pending := False\<rparr>)"
  using assms by (auto simp: deliver_def on_open_def start_settled_def Let_def split: if_splits)

text \<open>A Hello frame received on the current socket, which is open: the heartbeat is set and
  an Identify frame with the token and the intents of the settings is sent.\<close>

lemma hello_identifies:
  assumes "ws st = Some r" "sockets st r = Some w" "readyState w = WS_OPEN" "onmessage w"
    "frame_op f = Hello" "frame_d f \<noteq> DNull"
  shows "\<exists>st'. deliver r (WsMessage (Inr f)) st = Some st' \<and> ws st' = Some r \<and>
     sockets st' r = Some (w\<lparr>outbox := outbox w @ [SendIdentify (token (settings st)) (intents (settings st))]\<rparr>) \<and>
     retries st' = retries st \<and> reconnecting st' = reconnecting st \<and> settled st' = settled st \<and>
     heartbeat st' = Some (next_timer st)"
proof -
  note N = note_sequence_fields [of "frame_s f" st]
  show ?thesis
    using assms N
    by (cases "frame_d f")
       (simp_all add: deliver_def handleMessage_def on_Hello_def Let_def send_or_throw_def ws_send_def)
qed

lemma load_done_resumes:
  assumes "loading st = who # rest" "sessionStore (settings st) \<or> resumeData = None"
  shows "load_done resumeData st = Some (start_attach who resumeData (st\<lparr>loading := rest\<rparr>))"
  using assms by (auto simp: load_done_def)

lemma open_event_happens:
  assumes "sockets st r = Some w" "readyState w = WS_CONNECTING"
  shows "deliver r WsOpen st \<noteq> None"
  using assms by (simp add: deliver_def Let_def)

text \<open>The whole path from an InvalidSession frame that is not resumable to the Identify frame
  on the new socket.\<close>

lemma invalid_session_fresh_identify:
  assumes f: "frame_op f = InvalidSession"
    "\<not> (truthy_payload (frame_d f) \<and> truthy_str (sessionId st) \<and> lastSequence (note_sequence (frame_s f) st) \<noteq> None)"
    and w: "ws st = Some r" "sockets st r = Some w" "readyState w = WS_OPEN" "close_raises w = None"
    "\<not> close_event_fired w"
    and st: "\<not> reconnecting st" "int (retries st) < max_retries st" "loading st = []"
    and hello: "frame_op hello = Hello" "frame_d hello \<noteq> DNull"
    and env: "backoff (retries st) \<le> ms" "sessionStore (settings st) \<or> resumeData = None"
  shows "\<exists>st2 st6.
     perform_all [Runtime r (WsClose reason)] (handleMessage (Inr f) st) = Some st2 \<and>
     sessionId st2 = None \<and> lastSequence st2 = None \<and>
     (if sessionStore (settings st) then last (store_calls st2) = Clear else store_calls st2 = store_calls st) \<and>
     timeouts st2 = timeouts (handleMessage (Inr f) st) @
        [(next_timer st, now st + int (backoff (retries st)), ReconnectBackoff)] \<and>
     ws st2 = None \<and>
     perform_all [Advance ms, TimerFires (length (timeouts (handleMessage (Inr f) st))), LoadDone resumeData,
                  Runtime (next_socket st) WsOpen, Runtime (next_socket st) (WsMessage (Inr hello))] st2 = Some st6 \<and>
     ws st6 = Some (next_socket st) \<and>
     map_option outbox (sockets st6 (next_socket st)) =
       Some [SendIdentify (token (settings st)) (intents (settings st))] \<and>
     retries st6 = 0 \<and> \<not> reconnecting st6"
proof -
  define s1 where "s1 = handleMessage (Inr f) st"
  define w1 where "w1 = w\<lparr>onclose := Some (CloseResolvesDestroy (DestroyByReconnect True)), readyState := WS_CLOSING,
                   close_calls := close_calls w @ [(1000, DESTROYED)],
                   onopen := None, onmessage := False, onerror := None\<rparr>"
  define r' where "r' = next_socket st"
  note C = invalid_session_closes [OF f w(1-4) st(1), folded s1_def w1_def]
  have c1: "onclose w1 = Some (CloseResolvesDestroy (DestroyByReconnect True))" "\<not> close_event_fired w1"
    using w(5) by (simp_all add: w1_def)
  have c2: "int (retries s1) < max_retries s1"
    using st(2) C(4,5) by (simp add: max_retries_def)
  from close_resumes_reconnect [OF C(3) c1 c2, of reason]
  obtain s2 where s2: "deliver r (WsClose reason) s1 = Some s2"
    "sessionId s2 = None" "lastSequence s2 = None"
    "if sessionStore (settings s1) then last (store_calls s2) = Clear else store_calls s2 = store_calls s1"
    "timeouts s2 = timeouts s1 @ [(next_timer s1, now s1 + int (backoff (retries s1)), ReconnectBackoff)]"
    "ws s2 = ws s1" "loading s2 = loading s1" "next_socket s2 = next_socket s1" "settings s2 = settings s1"
    "now s2 = now s1" "reconnecting s2 = reconnecting s1"
    by auto
  have store: "if sessionStore (settings st) then last (store_calls s2) = Clear else store_calls s2 = store_calls st"
    using s2(4) C(5,11) note_sequence_fields [of "frame_s f" st] by (auto split: if_splits)
  define s2' where "s2' = s2\<lparr>now := now s2 + int ms\<rparr>"
  define i where "i = length (timeouts s1)"
  have t: "i < length (timeouts s2')"
    "timeouts s2' ! i = (next_timer s1, now s1 + int (backoff (retries s1)), ReconnectBackoff)"
    using s2(5) by (simp_all add: s2'_def i_def)
  have due: "now s1 + int (backoff (retries s1)) \<le> now s2'"
    using env(1) s2(10) C(4) by (simp add: s2'_def)
  define s3 where "s3 = start StartByReconnect (s2'\<lparr>timeouts := take i (timeouts s2') @ drop (Suc i) (timeouts s2')\<rparr>)"
  have s3: "timer_fires i s2' = Some s3"
    using backoff_timer_starts [OF t] due by (simp add: s3_def)
  note O = start_opens_socket [of StartByReconnect "s2'\<lparr>timeouts := take i (timeouts s2') @ drop (Suc i) (timeouts s2')\<rparr>", folded s3_def]
  have o: "ws s3 = Some r'" "sockets s3 r' = Some new_WebSocket" "loading s3 = [StartByReconnect]"
    "settings s3 = settings st"
    using O s2(7,8,9) C(5,6,7) st(3) by (simp_all add: s2'_def r'_def)
  define s4 where "s4 = start_attach StartByReconnect resumeData (s3\<lparr>loading := []\<rparr>)"
  have s4: "load_done resumeData s3 = Some s4"
    using load_done_resumes [OF o(3), of resumeData] env(2) o(4) by (simp add: s4_def)
  from load_done_attaches [OF o(3) o(1,2) s4]
  have a: "ws s4 = Some r'" "settings s4 = settings st"
    "sockets s4 r' = Some (new_WebSocket\<lparr>onopen := Some StartByReconnect, onclose := Some CloseWarns,
        onerror := Some StartByReconnect, onmessage := True, start_pending := True\<rparr>)"
    using o(4) by simp_all
  define w4 where "w4 = new_WebSocket\<lparr>onopen := Some StartByReconnect, onclose := Some CloseWarns,
        onerror := Some StartByReconnect, onmessage := True, start_pending := True\<rparr>"
  have w4: "sockets s4 r' = Some w4" "readyState w4 = WS_CONNECTING" "onopen w4 = Some StartByReconnect"
    "start_pending w4" "outbox w4 = []"
    using a(3) by (simp_all add: w4_def new_WebSocket_def)
  from open_event_happens [OF w4(1,2)] obtain s5 where s5: "deliver r' WsOpen s4 = Some s5"
    by auto
  from open_resolves_reconnect [OF w4(1,3,4) s5]
  have p: "ws s5 = Some r'" "settings s5 = settings st" "retries s5 = 0" "\<not> reconnecting s5"
    "sockets s5 r' = Some (w4\<lparr>readyState := WS_OPEN, start_pending := False\<rparr>)"
    using a(1,2) by simp_all
  have p': "readyState (w4\<lparr>readyState := WS_OPEN, start_pending := False\<rparr>) = WS_OPEN"
    "onmessage (w4\<lparr>readyState := WS_OPEN, start_pending := False\<rparr>)"
    by (simp_all add: w4_def)
  from hello_identifies [OF p(1,5) p' hello]
  obtain s6 where s6: "deliver r' (WsMessage (Inr hello)) s5 = Some s6" "ws s6 = Some r'"
    "sockets s6 r' = Some (w4\<lparr>readyState := WS_OPEN, start_pending := False,
        outbox := outbox (w4\<lparr>readyState := WS_OPEN, start_pending := False\<rparr>) @
          [SendIdentify (token (settings s5)) (intents (settings s5))]\<rparr>)"
    "retries s6 = retries s5" "reconnecting s6 = reconnecting s5"
    by auto
  have run1: "perform_all [Runtime r (WsClose reason)] s1 = Some s2"
    using s2(1) by simp
  have run2: "perform_all [Advance ms, TimerFires i, LoadDone resumeData, Runtime r' WsOpen,
      Runtime r' (WsMessage (Inr hello))] s2 = Some s6"
    using s3 s4 s5 s6(1) by (simp add: s2'_def [symmetric])
  have out: "map_option outbox (sockets s6 r') = Some [SendIdentify (token (settings st)) (intents (settings st))]"
    using s6(3) w4(5) p(2) by simp
  have tm: "timeouts s2 = timeouts s1 @ [(next_timer st, now st + int (backoff (retries st)), ReconnectBackoff)]"
    using s2(5) C(4,8,9) by simp
  have "ws s2 = None" using s2(6) C(1) by simp
  with run1 run2 out tm store s2(2,3) s6(2,4,5) p(3,4)
  show ?thesis
    unfolding s1_def [symmetric] r'_def [symmetric] i_def [symmetric]
    apply (rule_tac x = s2 in exI)
    apply (rule_tac x = s6 in exI)
    apply simp
    done
qed

lemma demo_open_facts:
  "perform_all [CallStart, LoadDone (Some (''abc'', 41)), Runtime 0 WsOpen, Runtime 0 (WsMessage (Inr demo_hello))]
       (new_Socket demo_settings 0) = Some demo_open \<and>
   settings demo_open = demo_settings \<and> ws demo_open = Some 0 \<and>
   sockets demo_open 0 = Some \<lparr>readyState = WS_OPEN, onopen = Some StartByCaller,
     onerror = Some StartByCaller, onclose = Some CloseWarns, onmessage = True, start_pending = False,
     outbox = [SendIdentify ''Bot abc'' 513], close_calls = [], close_raises = None, close_event_fired = False\<rparr> \<and>
   sessionId demo_open = Some ''abc'' \<and> lastSequence demo_open = Some 41 \<and>
   \<not> reconnecting demo_open \<and> retries demo_open = 0 \<and> loading demo_open = [] \<and>
   next_socket demo_open = 1 \<and> next_timer demo_open = 1 \<and> now demo_open = 0 \<and>
   heartbeat demo_open = Some 0 \<and> timeouts demo_open = [(0, 41250, HeartbeatInterval 41250)] \<and>
   settled demo_open = [StartResolved] \<and> store_calls demo_open = [Load]"
  by (simp add: demo_open_def demo_hello_def run_eval sock_eval handleMessage_def note_sequence_def
      on_Hello_def send_or_throw_def ws_send_def)

lemmas msg_run_eval = demo_open_def demo_hello_def demo_invalid_def performed_def deliver_def
  timer_fires_def load_done_def on_open_def on_error_def on_close_def start_settled_def destroy_def
  destroy_resumed_def destroy_settled_def reconnect_def reconnect_after_destroy_def
  handleMessage_def note_sequence_def on_Hello_def on_InvalidSession_def send_or_throw_def ws_send_def

text \<open>
  C5 as stated fails on the code. A connection has loaded the session id \<open>abc\<close> and the
  sequence 41, so both are known, and its socket is open. An InvalidSession frame whose
  payload \<open>d\<close> is \<open>false\<close> arrives: no Resume frame is sent (the Identify frame of the
  handshake stays the only frame sent on the socket); the code calls \<open>reconnect(true)\<close>,
  which closes the socket with code 1000 and, when the close event arrives, forgets the
  session.
\<close>

theorem invalid_session_counterexample:
  "sessionId demo_open = Some ''abc'' \<and> lastSequence demo_open = Some 41 \<and>
   map_option outbox (sockets demo_open 0) = Some [SendIdentify ''Bot abc'' 513] \<and>
   deliver 0 (WsMessage (Inr (demo_invalid False))) demo_open
     = Some (handleMessage (Inr (demo_invalid False)) demo_open) \<and>
   map_option outbox (sockets (handleMessage (Inr (demo_invalid False)) demo_open) 0)
     = Some [SendIdentify ''Bot abc'' 513] \<and>
   map_option close_calls (sockets (handleMessage (Inr (demo_invalid False)) demo_open) 0)
     = Some [(1000, DESTROYED)] \<and>
   reconnecting (handleMessage (Inr (demo_invalid False)) demo_open) \<and>
   map_option sessionId (deliver 0 (WsClose []) (handleMessage (Inr (demo_invalid False)) demo_open)) = Some None"
  by (simp add: msg_run_eval sock_eval)

text \<open>
  C5, amended. An InvalidSession frame arrives on the current socket, which is open. When
  the payload \<open>d\<close> of the frame is true, the session id is known and not empty and a
  sequence is known, a Resume frame with the token, that session id and that sequence is
  sent on the socket, and nothing else changes (no \<open>reconnect\<close>, the session is kept). In
  every other case, also when the session is known but \<open>d\<close> is false, no frame is sent and
  the handler calls \<open>reconnect(true)\<close>. When no \<open>reconnect\<close> is in flight and the counter is
  below the maximum, that call closes the socket with code 1000; at its close event the
  session id and the sequence are forgotten, \<open>clear\<close> is called on the session store and
  the backoff timer is set; and once the backoff has passed the following run happens:
  the timer callback calls \<open>start\<close>, \<open>load\<close> answers, the new socket opens, and on its Hello
  frame an Identify frame with the token and the intents of the settings is the one
  frame sent on the new socket.
\<close>

theorem invalid_session_resume_or_reconnect:
  "frame_op f = InvalidSession \<and> ws st = Some r \<and> sockets st r = Some w \<and> readyState w = WS_OPEN \<and>
   onmessage w \<longrightarrow>
     deliver r (WsMessage (Inr f)) st = Some (handleMessage (Inr f) st) \<and>
     (truthy_payload (frame_d f) \<and> sessionId st = Some sid \<and> sid \<noteq> [] \<and>
      lastSequence (note_sequence (frame_s f) st) = Some sq \<longrightarrow>
        sockets (handleMessage (Inr f) st) r
          = Some (w\<lparr>outbox := outbox w @ [SendResume (token (settings st)) sid sq]\<rparr>) \<and>
        ws (handleMessage (Inr f) st) = Some r \<and>
        settled (handleMessage (Inr f) st) = settled st \<and>
        reconnecting (handleMessage (Inr f) st) = reconnecting st \<and>
        sessionId (handleMessage (Inr f) st) = Some sid \<and>
        lastSequence (handleMessage (Inr f) st) = Some sq) \<and>
     (\<not> (truthy_payload (frame_d f) \<and> truthy_str (sessionId st) \<and>
         lastSequence (note_sequence (frame_s f) st) \<noteq> None) \<longrightarrow>
        handleMessage (Inr f) st =
          snd (reconnect True (echo_debug RECONNECT (warn_warns INVALID_SESSION (note_sequence (frame_s f) st)))) \<and>
        map_option outbox (sockets (handleMessage (Inr f) st) r) = Some (outbox w) \<and>
        (\<not> reconnecting st \<and> close_raises w = None \<and> \<not> close_event_fired w \<and>
         int (retries st) < max_retries st \<and> loading st = [] \<and>
         frame_op hello = Hello \<and> frame_d hello \<noteq> DNull \<and>
         backoff (retries st) \<le> ms \<and> (sessionStore (settings st) \<or> resumeData = None) \<longrightarrow>
           ws (handleMessage (Inr f) st) = None \<and>
           map_option close_calls (sockets (handleMessage (Inr f) st) r)
             = Some (close_calls w @ [(1000, DESTROYED)]) \<and>
           (\<exists>st2 st6.
              perform_all [Runtime r (WsClose reason)] (handleMessage (Inr f) st) = Some st2 \<and>
              sessionId st2 = None \<and> lastSequence st2 = None \<and>
              (if sessionStore (settings st) then last (store_calls st2) = Clear
               else store_calls st2 = store_calls st) \<and>
              timeouts st2 = timeouts (handleMessage (Inr f) st) @
                 [(next_timer st, now st + int (backoff (retries st)), ReconnectBackoff)] \<and>
              ws st2 = None \<and>
              perform_all [Advance ms, TimerFires (length (timeouts (handleMessage (Inr f) st))),
                           LoadDone resumeData, Runtime (next_socket st) WsOpen,
                           Runtime (next_socket st) (WsMessage (Inr hello))] st2 = Some st6 \<and>
              ws st6 = Some (next_socket st) \<and>
              map_option outbox (sockets st6 (next_socket st)) =
                Some [SendIdentify (token (settings st)) (intents (settings st))] \<and>
              retries st6 = 0 \<and> \<not> reconnecting st6)))"
proof (intro impI)
  assume a: "frame_op f = InvalidSession \<and> ws st = Some r \<and> sockets st r = Some w \<and> readyState w = WS_OPEN \<and>
   onmessage w"
  then have f: "frame_op f = InvalidSession" and w: "ws st = Some r" "sockets st r = Some w" "readyState w = WS_OPEN"
    and m: "onmessage w"
    by simp_all
  have d: "deliver r (WsMessage (Inr f)) st = Some (handleMessage (Inr f) st)"
    using w m by (simp add: deliver_def)
  have resume: "sockets (handleMessage (Inr f) st) r
          = Some (w\<lparr>outbox := outbox w @ [SendResume (token (settings st)) sid sq]\<rparr>) \<and>
        ws (handleMessage (Inr f) st) = Some r \<and>
        settled (handleMessage (Inr f) st) = settled st \<and>
        reconnecting (handleMessage (Inr f) st) = reconnecting st \<and>
        sessionId (handleMessage (Inr f) st) = Some sid \<and>
        lastSequence (handleMessage (Inr f) st) = Some sq"
    if "truthy_payload (frame_d f) \<and> sessionId st = Some sid \<and> sid \<noteq> [] \<and>
      lastSequence (note_sequence (frame_s f) st) = Some sq"
    using resume_sent [where f=f and st=st and sid=sid and sq=sq and r=r and w=w] that f w by simp
  have other: "handleMessage (Inr f) st =
          snd (reconnect True (echo_debug RECONNECT (warn_warns INVALID_SESSION (note_sequence (frame_s f) st)))) \<and>
        map_option outbox (sockets (handleMessage (Inr f) st) r) = Some (outbox w) \<and>
        (\<not> reconnecting st \<and> close_raises w = None \<and> \<not> close_event_fired w \<and>
         int (retries st) < max_retries st \<and> loading st = [] \<and>
         frame_op hello = Hello \<and> frame_d hello \<noteq> DNull \<and>
         backoff (retries st) \<le> ms \<and> (sessionStore (settings st) \<or> resumeData = None) \<longrightarrow>
           ws (handleMessage (Inr f) st) = None \<and>
           map_option close_calls (sockets (handleMessage (Inr f) st) r)
             = Some (close_calls w @ [(1000, DESTROYED)]) \<and>
           (\<exists>st2 st6.
              perform_all [Runtime r (WsClose reason)] (handleMessage (Inr f) st) = Some st2 \<and>
              sessionId st2 = None \<and> lastSequence st2 = None \<and>
              (if sessionStore (settings st) then last (store_calls st2) = Clear
               else store_calls st2 = store_calls st) \<and>
              timeouts st2 = timeouts (handleMessage (Inr f) st) @
                 [(next_timer st, now st + int (backoff (retries st)), ReconnectBackoff)] \<and>
              ws st2 = None \<and>
              perform_all [Advance ms, TimerFires (length (timeouts (handleMessage (Inr f) st))),
                           LoadDone resumeData, Runtime (next_socket st) WsOpen,
                           Runtime (next_socket st) (WsMessage (Inr hello))] st2 = Some st6 \<and>
              ws st6 = Some (next_socket st) \<and>
              map_option outbox (sockets st6 (next_socket st)) =
                Some [SendIdentify (token (settings st)) (intents (settings st))] \<and>
              retries st6 = 0 \<and> \<not> reconnecting st6))"
    if n: "\<not> (truthy_payload (frame_d f) \<and> truthy_str (sessionId st) \<and>
         lastSequence (note_sequence (frame_s f) st) \<noteq> None)"
  proof (intro conjI impI)
    show h: "handleMessage (Inr f) st =
          snd (reconnect True (echo_debug RECONNECT (warn_warns INVALID_SESSION (note_sequence (frame_s f) st))))"
      by (rule reconnect_called [OF f n])
    show "map_option outbox (sockets (handleMessage (Inr f) st) r) = Some (outbox w)"
      using reconnect_keeps_outbox [of True "echo_debug RECONNECT (warn_warns INVALID_SESSION (note_sequence (frame_s f) st))" r]
        note_sequence_fields [of "frame_s f" st] w
      unfolding h by simp
  next
    assume b: "\<not> reconnecting st \<and> close_raises w = None \<and> \<not> close_event_fired w \<and>
         int (retries st) < max_retries st \<and> loading st = [] \<and>
         frame_op hello = Hello \<and> frame_d hello \<noteq> DNull \<and>
         backoff (retries st) \<le> ms \<and> (sessionStore (settings st) \<or> resumeData = None)"
    then have b': "close_raises w = None" "\<not> close_event_fired w" "\<not> reconnecting st"
      "int (retries st) < max_retries st" "loading st = []" "frame_op hello = Hello" "frame_d hello \<noteq> DNull"
      "backoff (retries st) \<le> ms" "sessionStore (settings st) \<or> resumeData = None"
      by simp_all
    note C = invalid_session_closes [OF f n w b'(1,3)]
    show "ws (handleMessage (Inr f) st) = None" by (rule C)
    show "map_option close_calls (sockets (handleMessage (Inr f) st) r)
             = Some (close_calls w @ [(1000, DESTROYED)])"
      using C(3) by simp
    show "\<exists>st2 st6.
              perform_all [Runtime r (WsClose reason)] (handleMessage (Inr f) st) = Some st2 \<and>
              sessionId st2 = None \<and> lastSequence st2 = None \<and>
              (if sessionStore (settings st) then last (store_calls st2) = Clear
               else store_calls st2 = store_calls st) \<and>
              timeouts st2 = timeouts (handleMessage (Inr f) st) @
                 [(next_timer st, now st + int (backoff (retries st)), ReconnectBackoff)] \<and>
              ws st2 = None \<and>
              perform_all [Advance ms, TimerFires (length (timeouts (handleMessage (Inr f) st))),
                           LoadDone resumeData, Runtime (next_socket st) WsOpen,
                           Runtime (next_socket st) (WsMessage (Inr hello))] st2 = Some st6 \<and>
              ws st6 = Some (next_socket st) \<and>
              map_option outbox (sockets st6 (next_socket st)) =
                Some [SendIdentify (token (settings st)) (intents (settings st))] \<and>
              retries st6 = 0 \<and> \<not> reconnecting st6"
      by (rule invalid_session_fresh_identify [OF f n w b'(1,2,3,4,5,6,7,8,9)])
  qed
  from d resume other
  show "deliver r (WsMessage (Inr f)) st = Some (handleMessage (Inr f) st) \<and>
     (truthy_payload (frame_d f) \<and> sessionId st = Some sid \<and> sid \<noteq> [] \<and>
      lastSequence (note_sequence (frame_s f) st) = Some sq \<longrightarrow>
        sockets (handleMessage (Inr f) st) r
          = Some (w\<lparr>outbox := outbox w @ [SendResume (token (settings st)) sid sq]\<rparr>) \<and>
        ws (handleMessage (Inr f) st) = Some r \<and>
        settled (handleMessage (Inr f) st) = settled st \<and>
        reconnecting (handleMessage (Inr f) st) = reconnecting st \<and>
        sessionId (handleMessage (Inr f) st) = Some sid \<and>
        lastSequence (handleMessage (Inr f) st) = Some sq) \<and>
     (\<not> (truthy_payload (frame_d f) \<and> truthy_str (sessionId st) \<and>
         lastSequence (note_sequence (frame_s f) st) \<noteq> None) \<longrightarrow>
        handleMessage (Inr f) st =
          snd (reconnect True (echo_debug RECONNECT (warn_warns INVALID_SESSION (note_sequence (frame_s f) st)))) \<and>
        map_option outbox (sockets (handleMessage (Inr f) st) r) = Some (outbox w) \<and>
        (\<not> reconnecting st \<and> close_raises w = None \<and> \<not> close_event_fired w \<and>
         int (retries st) < max_retries st \<and> loading st = [] \<and>
         frame_op hello = Hello \<and> frame_d hello \<noteq> DNull \<and>
         backoff (retries st) \<le> ms \<and> (sessionStore (settings st) \<or> resumeData = None) \<longrightarrow>
           ws (handleMessage (Inr f) st) = None \<and>
           map_option close_calls (sockets (handleMessage (Inr f) st) r)
             = Some (close_calls w @ [(1000, DESTROYED)]) \<and>
           (\<exists>st2 st6.
              perform_all [Runtime r (WsClose reason)] (handleMessage (Inr f) st) = Some st2 \<and>
              sessionId st2 = None \<and> lastSequence st2 = None \<and>
              (if sessionStore (settings st) then last (store_calls st2) = Clear
               else store_calls st2 = store_calls st) \<and>
              timeouts st2 = timeouts (handleMessage (Inr f) st) @
                 [(next_timer st, now st + int (backoff (retries st)), ReconnectBackoff)] \<and>
              ws st2 = None \<and>
              perform_all [Advance ms, TimerFires (length (timeouts (handleMessage (Inr f) st))),
                           LoadDone resumeData, Runtime (next_socket st) WsOpen,
                           Runtime (next_socket st) (WsMessage (Inr hello))] st2 = Some st6 \<and>
              ws st6 = Some (next_socket st) \<and>
              map_option outbox (sockets st6 (next_socket st)) =
                Some [SendIdentify (token (settings st)) (intents (settings st))] \<and>
              retries st6 = 0 \<and> \<not> reconnecting st6)))"
    by blast
qed

theorem invalid_session_resume_or_reconnect_witness:
  "deliver 0 (WsMessage (Inr (demo_invalid True))) demo_open
     = Some (handleMessage (Inr (demo_invalid True)) demo_open) \<and>
   map_option outbox (sockets (handleMessage (Inr (demo_invalid True)) demo_open) 0)
     = Some [SendIdentify ''Bot abc'' 513, SendResume ''Bot abc'' ''abc'' 41] \<and>
   settled (handleMessage (Inr (demo_invalid True)) demo_open) = settled demo_open \<and>
   \<not> reconnecting (handleMessage (Inr (demo_invalid True)) demo_open) \<and>
   handleMessage (Inr (demo_invalid False)) demo_open =
     snd (reconnect True (echo_debug RECONNECT (warn_warns INVALID_SESSION (note_sequence None demo_open)))) \<and>
   perform_all demo_reidentify demo_open = Some (performed demo_reidentify demo_open) \<and>
   perform_all (take 2 demo_reidentify) demo_open = Some (performed (take 2 demo_reidentify) demo_open) \<and>
   sessionId (performed (take 2 demo_reidentify) demo_open) = None \<and>
   lastSequence (performed (take 2 demo_reidentify) demo_open) = None \<and>
   last (store_calls (performed (take 2 demo_reidentify) demo_open)) = Clear \<and>
   timeouts (performed (take 2 demo_reidentify) demo_open) = [(1, 1000, ReconnectBackoff)] \<and>
   ws (performed demo_reidentify demo_open) = Some 1 \<and>
   map_option outbox (sockets (performed demo_reidentify demo_open) 1) = Some [SendIdentify ''Bot abc'' 513] \<and>
   retries (performed demo_reidentify demo_open) = 0"
proof -
  define w where "w = \<lparr>readyState = WS_OPEN, onopen = Some StartByCaller,
     onerror = Some StartByCaller, onclose = Some CloseWarns, onmessage = True, start_pending = False,
     outbox = [SendIdentify ''Bot abc'' 513], close_calls = [], close_raises = None, close_event_fired = False\<rparr>"
  note F = demo_open_facts [folded w_def]
  have h: "frame_op (demo_invalid True) = InvalidSession" "truthy_payload (frame_d (demo_invalid True))"
    "frame_s (demo_invalid True) = None" "''abc'' \<noteq> []"
    "frame_op (demo_invalid False) = InvalidSession" "\<not> truthy_payload (frame_d (demo_invalid False))"
    "frame_s (demo_invalid False) = None"
    "frame_op demo_hello = Hello" "frame_d demo_hello \<noteq> DNull"
    by (simp_all add: demo_invalid_def demo_hello_def)
  have w: "readyState w = WS_OPEN" "onmessage w" "close_raises w = None" "\<not> close_event_fired w"
    "outbox w = [SendIdentify ''Bot abc'' 513]" "close_calls w = []"
    by (simp_all add: w_def)
  have n: "note_sequence None demo_open = demo_open"
    by (simp add: note_sequence_def)
  have e: "token (settings demo_open) = ''Bot abc''" "intents (settings demo_open) = 513"
    "sessionStore (settings demo_open)" "max_retries demo_open = 5" "backoff (retries demo_open) = 1000"
    using F by (simp_all add: demo_settings_def max_retries_def backoff_def)
  note A = invalid_session_resume_or_reconnect [where f="demo_invalid True" and st=demo_open
      and sid="''abc''" and sq=41 and r=0 and w=w]
  have a: "deliver 0 (WsMessage (Inr (demo_invalid True))) demo_open
     = Some (handleMessage (Inr (demo_invalid True)) demo_open)"
    "map_option outbox (sockets (handleMessage (Inr (demo_invalid True)) demo_open) 0)
     = Some [SendIdentify ''Bot abc'' 513, SendResume ''Bot abc'' ''abc'' 41]"
    "settled (handleMessage (Inr (demo_invalid True)) demo_open) = settled demo_open"
    "\<not> reconnecting (handleMessage (Inr (demo_invalid True)) demo_open)"
    using A F h w n e by simp_all
  note B = invalid_session_resume_or_reconnect [where f="demo_invalid False" and st=demo_open
      and r=0 and w=w and hello=demo_hello and ms=1000 and resumeData=None and reason="[]"]
  define s1 where "s1 = handleMessage (Inr (demo_invalid False)) demo_open"
  have b: "deliver 0 (WsMessage (Inr (demo_invalid False))) demo_open = Some s1"
    "s1 = snd (reconnect True (echo_debug RECONNECT (warn_warns INVALID_SESSION (note_sequence None demo_open))))"
    using B F h w unfolding s1_def by simp_all
  have t: "timeouts s1 = []"
    using F
    by (simp add: b(2) n reconnect_def destroy_def echo_debug_def warn_warns_def demo_settings_def clear_timer_def
        w_def)
  have "\<exists>st2 st6.
      perform_all [Runtime 0 (WsClose [])] s1 = Some st2 \<and>
      sessionId st2 = None \<and> lastSequence st2 = None \<and> last (store_calls st2) = Clear \<and>
      timeouts st2 = [(1, 1000, ReconnectBackoff)] \<and>
      perform_all [Advance 1000, TimerFires 0, LoadDone None, Runtime 1 WsOpen,
                   Runtime 1 (WsMessage (Inr demo_hello))] st2 = Some st6 \<and>
      ws st6 = Some 1 \<and>
      map_option outbox (sockets st6 1) = Some [SendIdentify ''Bot abc'' 513] \<and> retries st6 = 0"
    using B F h w e t unfolding s1_def [symmetric] by auto
  then obtain st2 st6 where r1: "perform_all [Runtime 0 (WsClose [])] s1 = Some st2"
    and c: "sessionId st2 = None" "lastSequence st2 = None" "last (store_calls st2) = Clear"
      "timeouts st2 = [(1, 1000, ReconnectBackoff)]"
    and r2: "perform_all [Advance 1000, TimerFires 0, LoadDone None, Runtime 1 WsOpen,
                   Runtime 1 (WsMessage (Inr demo_hello))] st2 = Some st6"
    and i: "ws st6 = Some 1" "map_option outbox (sockets st6 1) = Some [SendIdentify ''Bot abc'' 513]"
      "retries st6 = 0"
    by blast
  from r1 have r1': "deliver 0 (WsClose []) s1 = Some st2"
    by (simp split: option.splits)
  have p2: "perform_all (take 2 demo_reidentify) demo_open = Some st2"
    using b(1) r1' by (simp add: demo_reidentify_def)
  have p: "perform_all demo_reidentify demo_open = Some st6"
    using b(1) r1' r2 by (simp add: demo_reidentify_def)
  have q: "performed demo_reidentify demo_open = st6" "performed (take 2 demo_reidentify) demo_open = st2"
    using p p2 by (simp_all add: performed_def)
  from a b(2) c i p p2 show ?thesis
    unfolding q s1_def by simp
qed

subsection \<open>listen\<close>

text \<open>
  C9 as stated fails on the code: with \<open>settings.warns\<close> not set, replacing the handler of
  \<open>MESSAGE_CREATE\<close> logs nothing; the second \<open>listen\<close> leaves the log empty.
\<close>

theorem listen_silent_counterexample:
  "events (listen ''MESSAGE_CREATE'' (demo_handler 1) (new_Socket demo_settings 0)) ''MESSAGE_CREATE''
     = Some (demo_handler 1) \<and>
   logged (listen ''MESSAGE_CREATE'' (demo_handler 2)
            (listen ''MESSAGE_CREATE'' (demo_handler 1) (new_Socket demo_settings 0))) = []"
  by (simp add: listen_def sock_eval)

lemma note_sequence_events:
  "events (note_sequence sq st) = events st \<and> invoked (note_sequence sq st) = invoked st"
  by (auto simp: note_sequence_def Let_def split: option.splits)

lemma dispatch_invokes:
  assumes "frame_op f = Dispatch" "frame_t f = Some e" "e \<noteq> []" "\<not> (e = ''READY'' \<and> frame_d f = DNull)"
    "events st e = Some h"
  shows "invoked (handleMessage (Inr f) st) = invoked st @ [(h, frame_d f)]"
proof -
  define st1 where "st1 = note_sequence (frame_s f) st"
  have k: "events st1 e = Some h" "invoked st1 = invoked st"
    using assms(5) note_sequence_events [of "frame_s f" st] by (simp_all add: st1_def)
  have "invoked (on_Dispatch (Some e) (frame_d f) st1) = invoked st1 @ [(h, frame_d f)]"
    using assms(3,4) k(1)
    by (auto simp: on_Dispatch_def call_handler_def Let_def split: payload.splits option.splits)
  then show ?thesis
    using assms(1,2) k(2) by (simp add: handleMessage_def Let_def st1_def)
qed

text \<open>
  C9, amended. The handlers are a map from event names, so an event has at most one.
  \<open>listen\<close> on an event that has a handler logs the warning \<open>LISTENER_REPLACED\<close> when
  \<open>settings.warns\<close> is set and logs nothing when it is not; in both cases the map then
  holds the new handler for that event and is unchanged elsewhere, and the next dispatch
  frame for the event calls the new handler, once, with the data of the frame, and calls
  no other handler. (The event name of a frame counts when it is not empty; a READY
  frame whose data is \<open>null\<close> throws at \<open>d.session_id\<close> before any handler is looked up.)
\<close>

theorem listen_replaces_handler:
  "events st e = Some old \<longrightarrow>
     logged (listen e h st) =
       (if warns (settings st) then logged st @ [(Warn, LISTENER_REPLACED e)] else logged st) \<and>
     events (listen e h st) = (events st)(e \<mapsto> h) \<and>
     (frame_op f = Dispatch \<and> frame_t f = Some e \<and> e \<noteq> [] \<and> \<not> (e = ''READY'' \<and> frame_d f = DNull) \<longrightarrow>
        invoked (handleMessage (Inr f) (listen e h st)) = invoked st @ [(h, frame_d f)])"
proof (intro impI conjI)
  assume a: "events st e = Some old"
  then show "logged (listen e h st) =
       (if warns (settings st) then logged st @ [(Warn, LISTENER_REPLACED e)] else logged st)"
    by (simp add: listen_def Let_def)
  from a show ev: "events (listen e h st) = (events st)(e \<mapsto> h)"
    by (simp add: listen_def Let_def)
  assume b: "frame_op f = Dispatch \<and> frame_t f = Some e \<and> e \<noteq> [] \<and> \<not> (e = ''READY'' \<and> frame_d f = DNull)"
  have "invoked (listen e h st) = invoked st"
    by (simp add: listen_def Let_def)
  with b ev dispatch_invokes [where f=f and e=e and st="listen e h st" and h=h]
  show "invoked (handleMessage (Inr f) (listen e h st)) = invoked st @ [(h, frame_d f)]"
    by simp
qed

theorem listen_replaces_handler_witness:
  "logged (listen ''MESSAGE_CREATE'' (demo_handler 2)
     (listen ''MESSAGE_CREATE'' (demo_handler 1) (new_Socket (demo_settings\<lparr>warns := True\<rparr>) 0)))
     = [(Warn, LISTENER_REPLACED ''MESSAGE_CREATE'')] \<and>
   invoked (handleMessage (Inr (demo_frame 7)) (listen ''MESSAGE_CREATE'' (demo_handler 2)
     (listen ''MESSAGE_CREATE'' (demo_handler 1) (new_Socket (demo_settings\<lparr>warns := True\<rparr>) 0))))
     = [(demo_handler 2, DEvent None)]"
proof -
  define st where "st = listen ''MESSAGE_CREATE'' (demo_handler 1) (new_Socket (demo_settings\<lparr>warns := True\<rparr>) 0)"
  have h: "events st ''MESSAGE_CREATE'' = Some (demo_handler 1)" "warns (settings st)" "logged st = []"
    "invoked st = []"
    by (simp_all add: st_def listen_def sock_eval)
  have g: "frame_op (demo_frame 7) = Dispatch" "frame_t (demo_frame 7) = Some ''MESSAGE_CREATE''"
    "frame_d (demo_frame 7) = DEvent None" "''MESSAGE_CREATE'' \<noteq> []" "''MESSAGE_CREATE'' \<noteq> ''READY''"
    by (simp_all add: demo_frame_def)
  from listen_replaces_handler [where st=st and e="''MESSAGE_CREATE''" and old="demo_handler 1"
      and h="demo_handler 2" and f="demo_frame 7"] h g
  show ?thesis by (simp add: st_def)
qed

subsection \<open>destroy and a pending start\<close>

lemma reconnect_after_destroy_sockets:
  "sockets (snd (reconnect_after_destroy clear st)) = sockets st \<and>
   start_outcomes (settled (snd (reconnect_after_destroy clear st))) = start_outcomes (settled st)"
  by (auto simp: reconnect_after_destroy_def Let_def start_outcomes_def)

lemma destroy_resumed_sockets:
  "sockets (destroy_resumed who st) = sockets st \<and>
   start_outcomes (settled (destroy_resumed who st)) = start_outcomes (settled st)"
  using reconnect_after_destroy_sockets [of _ "settle (DestroyResolved True) (echo_debug DESTROYED st)"]
  by (cases who) (auto simp: destroy_resumed_def destroy_settled_def Let_def start_outcomes_def)

lemma on_close_sockets:
  "sockets (on_close h reason st) = sockets st \<and>
   start_outcomes (settled (on_close h reason st)) = start_outcomes (settled st)"
  using destroy_resumed_sockets by (cases h) (auto simp: on_close_def)

lemma deliver_detached:
  assumes "detached r st" "deliver r ev st = Some st'"
  shows "detached r st' \<and> start_outcomes (settled st') = start_outcomes (settled st)"
proof -
  from assms(1) obtain w where w: "sockets st r = Some w" "onopen w = None" "onerror w = None"
    "\<not> onmessage w" "start_pending w"
    by (auto simp: detached_def split: option.splits)
  show ?thesis
  proof (cases ev)
    case WsOpen
    with assms(2) w show ?thesis
      by (auto simp: deliver_def detached_def Let_def split: if_splits)
  next
    case (WsMessage msg)
    with assms w show ?thesis
      by (auto simp: deliver_def Let_def split: if_splits)
  next
    case (WsError msg)
    with assms(2) w show ?thesis
      by (auto simp: deliver_def detached_def Let_def split: if_splits)
  next
    case (WsClose reason)
    define st1 where "st1 = st\<lparr>sockets := (sockets st)(r \<mapsto> w\<lparr>readyState := WS_CLOSED, close_event_fired := True\<rparr>)\<rparr>"
    have d1: "detached r st1" "settled st1 = settled st"
      using w by (simp_all add: st1_def detached_def)
    have "st' = (case onclose w of Some h \<Rightarrow> on_close h reason st1 | None \<Rightarrow> st1)"
      using assms(2) WsClose w unfolding st1_def by (auto simp: deliver_def Let_def split: if_splits)
    then show ?thesis
      using d1 on_close_sockets [of _ reason st1]
      by (cases "onclose w") (auto simp: detached_def)
  qed
qed

lemma deliver_all_detached:
  "detached r st \<Longrightarrow> deliver_all (map (Pair r) evs) st = Some st' \<Longrightarrow>
   detached r st' \<and> start_outcomes (settled st') = start_outcomes (settled st)"
proof (induction evs arbitrary: st)
  case Nil
  then show ?case by simp
next
  case (Cons ev evs)
  from Cons.prems(2) obtain st1 where 1: "deliver r ev st = Some st1"
    and 2: "deliver_all (map (Pair r) evs) st1 = Some st'"
    by (auto split: option.splits)
  from deliver_detached [OF Cons.prems(1) 1] Cons.IH [OF _ 2] show ?case by simp
qed

text \<open>
  C7 as stated fails on the code: \<open>destroy\<close> called while the socket is still connecting
  and the promise of \<open>start\<close> is pending closes the socket and, at the close event,
  resolves \<open>true\<close>; the promise of \<open>start\<close> has not been rejected then, and the socket
  object still carries it unsettled.
\<close>

theorem destroy_start_pending_counterexample:
  "map_option start_pending (sockets demo_started 0) = Some True \<and>
   map_option settled (deliver 0 (WsClose []) (call_destroy DestroyByCaller demo_started))
     = Some [DestroyResolved True] \<and>
   map_option (\<lambda>st. map_option start_pending (sockets st 0))
      (deliver 0 (WsClose []) (call_destroy DestroyByCaller demo_started)) = Some (Some True)"
  by (simp add: demo_started_def demo_closed_def run_eval sock_eval)

text \<open>
  C7, amended. \<open>destroy\<close> clears the heartbeat timer on every path. When \<open>close\<close> does not
  throw, it detaches the open, message and error handlers, sets \<open>_ws\<close> to \<open>null\<close>, waits
  for the close event, and has called \<open>close(1000, ...)\<close> if the socket was open or
  connecting. A promise of \<open>start\<close> that was pending on that socket is not rejected: it
  stays pending, and no later event of the socket settles it.
\<close>

theorem destroy_leaves_start_pending:
  "heartbeat (snd (destroy who st)) = None \<and>
   list_all (\<lambda>(i, due, kind). Some i \<noteq> heartbeat st) (timeouts (snd (destroy who st))) \<and>
   (ws st = Some r \<and> sockets st r = Some w \<and> close_raises w = None \<longrightarrow>
      fst (destroy who st) = None \<and>
      ws (snd (destroy who st)) = None \<and>
      settled (snd (destroy who st)) = settled st \<and>
      sockets (snd (destroy who st)) r =
        Some (if readyState w = WS_OPEN \<or> readyState w = WS_CONNECTING
              then w\<lparr>onclose := Some (CloseResolvesDestroy who), readyState := WS_CLOSING,
                     close_calls := close_calls w @ [(1000, DESTROYED)],
                     onopen := None, onmessage := False, onerror := None\<rparr>
              else w\<lparr>onclose := Some (CloseResolvesDestroy who),
                     onopen := None, onmessage := False, onerror := None\<rparr>)) \<and>
   (ws st = Some r \<and> sockets st r = Some w \<and> close_raises w = None \<and> start_pending w \<and>
    deliver_all (map (Pair r) evs) (snd (destroy who st)) = Some st' \<longrightarrow>
      start_outcomes (settled st') = start_outcomes (settled st) \<and>
      map_option start_pending (sockets st' r) = Some True)"
proof (intro conjI impI)
  show "heartbeat (snd (destroy who st)) = None"
    and "list_all (\<lambda>(i, due, kind). Some i \<noteq> heartbeat st) (timeouts (snd (destroy who st)))"
    using destroy_clears_heartbeat [of who st] by simp_all
next
  assume a: "ws st = Some r \<and> sockets st r = Some w \<and> close_raises w = None"
  then show "fst (destroy who st) = None" and "ws (snd (destroy who st)) = None"
    and "settled (snd (destroy who st)) = settled st"
    and "sockets (snd (destroy who st)) r =
        Some (if readyState w = WS_OPEN \<or> readyState w = WS_CONNECTING
              then w\<lparr>onclose := Some (CloseResolvesDestroy who), readyState := WS_CLOSING,
                     close_calls := close_calls w @ [(1000, DESTROYED)],
                     onopen := None, onmessage := False, onerror := None\<rparr>
              else w\<lparr>onclose := Some (CloseResolvesDestroy who),
                     onopen := None, onmessage := False, onerror := None\<rparr>)"
    using destroy_closes [where st=st and r=r and w=w and who=who] by simp_all
next
  assume a: "ws st = Some r \<and> sockets st r = Some w \<and> close_raises w = None \<and> start_pending w \<and>
    deliver_all (map (Pair r) evs) (snd (destroy who st)) = Some st'"
  then have "detached r (snd (destroy who st))" and s: "settled (snd (destroy who st)) = settled st"
    using destroy_closes [where st=st and r=r and w=w and who=who] by (simp_all add: detached_def)
  with a deliver_all_detached [where r=r and st="snd (destroy who st)" and evs=evs and st'=st']
  have "detached r st'" and "start_outcomes (settled st') = start_outcomes (settled st)"
    by simp_all
  then show "start_outcomes (settled st') = start_outcomes (settled st)"
    and "map_option start_pending (sockets st' r) = Some True"
    by (auto simp: detached_def split: option.splits)
qed

theorem destroy_leaves_start_pending_witness:
  "heartbeat demo_beating = Some 0 \<and>
   timeouts demo_beating = [(0, 41250, HeartbeatInterval 41250)] \<and>
   heartbeat (snd (destroy DestroyByCaller demo_beating)) = None \<and>
   timeouts (snd (destroy DestroyByCaller demo_beating)) = [] \<and>
   ws (snd (destroy DestroyByCaller demo_started)) = None \<and>
   map_option close_calls (sockets (snd (destroy DestroyByCaller demo_started)) 0) = Some [(1000, DESTROYED)] \<and>
   deliver_all [(0, WsClose [])] (snd (destroy DestroyByCaller demo_started)) \<noteq> None \<and>
   start_outcomes (settled (the (deliver_all [(0, WsClose [])] (snd (destroy DestroyByCaller demo_started))))) = [] \<and>
   map_option start_pending
     (sockets (the (deliver_all [(0, WsClose [])] (snd (destroy DestroyByCaller demo_started)))) 0) = Some True"
proof -
  define w where "w = new_WebSocket\<lparr>onopen := Some StartByCaller, onclose := Some CloseWarns,
      onerror := Some StartByCaller, onmessage := True, start_pending := True\<rparr>"
  have h: "ws demo_started = Some 0" "sockets demo_started 0 = Some w" "close_raises w = None"
    "start_pending w" "readyState w = WS_CONNECTING" "settled demo_started = []"
    by (simp_all add: demo_started_def run_eval sock_eval w_def)
  have b: "heartbeat demo_beating = Some 0" "timeouts demo_beating = [(0, 41250, HeartbeatInterval 41250)]"
    by (simp_all add: demo_beating_def demo_started_def demo_closed_def run_eval msg_eval sock_eval)
  have t: "timeouts (snd (destroy DestroyByCaller demo_beating)) = []"
    by (simp add: demo_beating_def demo_started_def demo_closed_def run_eval msg_eval sock_eval)
  have e: "deliver_all [(0, WsClose [])] (snd (destroy DestroyByCaller demo_started)) \<noteq> None"
    by (simp add: demo_started_def demo_closed_def run_eval sock_eval)
  then have e': "deliver_all (map (Pair 0) [WsClose []]) (snd (destroy DestroyByCaller demo_started))
      = Some (the (deliver_all [(0, WsClose [])] (snd (destroy DestroyByCaller demo_started))))"
    by simp
  note A = destroy_leaves_start_pending [where who=DestroyByCaller and st=demo_beating]
  note B = destroy_leaves_start_pending [where who=DestroyByCaller and st=demo_started and r=0 and w=w
      and evs="[WsClose []]"
      and st'="the (deliver_all [(0, WsClose [])] (snd (destroy DestroyByCaller demo_started)))"]
  from A have a: "heartbeat (snd (destroy DestroyByCaller demo_beating)) = None" by simp
  from B h e e' a b t
  show ?thesis by (simp add: start_outcomes_def w_def new_WebSocket_def)
qed

text \<open>
  C10, evaluated on the code at a socket that has already closed. When \<open>_ws\<close> is a socket
  whose close event has been dispatched (the server closed the connection, or it
  failed), \<open>destroy\<close> assigns its resolver to \<open>onclose\<close>, skips \<open>close\<close> because the socket
  is neither open nor connecting, and waits for a close event. The runtime delivers no
  further event to that socket, so the wait never ends: the promise of \<open>destroy\<close> is
  neither resolved nor rejected.
\<close>

theorem destroy_hangs_on_closed_socket:
  "ws st = Some r \<and> sockets st r = Some w \<and> readyState w = WS_CLOSED \<and> close_event_fired w \<longrightarrow>
     fst (destroy who st) = None \<and>
     call_destroy who st = snd (destroy who st) \<and>
     settled (snd (destroy who st)) = settled st \<and>
     (\<forall>ev. deliver r ev (snd (destroy who st)) = None)"
  by (auto simp: destroy_def call_destroy_def deliver_def Let_def split: option.splits ws_event.splits)

theorem destroy_hangs_on_closed_socket_witness:
  "ws demo_closed = Some 0 \<and>
   map_option readyState (sockets demo_closed 0) = Some WS_CLOSED \<and>
   map_option close_event_fired (sockets demo_closed 0) = Some True \<and>
   fst (destroy DestroyByCaller demo_closed) = None \<and>
   settled (call_destroy DestroyByCaller demo_closed) = [StartResolved] \<and>
   deliver 0 (WsClose []) (call_destroy DestroyByCaller demo_closed) = None"
proof -
  define w where "w = new_WebSocket\<lparr>readyState := WS_CLOSED, onopen := Some StartByCaller,
      onclose := Some CloseWarns, onerror := Some StartByCaller, onmessage := True,
      close_event_fired := True\<rparr>"
  have h: "ws demo_closed = Some 0" "sockets demo_closed 0 = Some w" "readyState w = WS_CLOSED"
    "close_event_fired w" "settled demo_closed = [StartResolved]"
    by (simp_all add: demo_started_def demo_closed_def run_eval sock_eval w_def)
  from destroy_hangs_on_closed_socket [where st=demo_closed and r=0 and w=w and who=DestroyByCaller] h
  show ?thesis by (simp add: w_def new_WebSocket_def)
qed

subsection \<open>start resumed after destroy\<close>

text \<open>
  The handlers of \<open>start\<close> are attached after its \<open>await\<close>. When \<open>destroy\<close> runs before
  that (in the same turn as \<open>start\<close>, or while \<open>load\<close> is still working), \<open>_ws\<close> is \<open>null\<close> when
  \<open>start\<close> goes on, the assignment of \<open>onopen\<close> throws and the promise of \<open>start\<close> is rejected
  with that TypeError. This is the one case in which a \<open>destroy\<close> is followed by a
  rejection of \<open>start\<close>; it concerns a \<open>start\<close> that has not yet attached its handlers to
  the socket.
\<close>

lemma start_without_socket_rejects:
  assumes "ws st = None"
  shows "start_outcomes (settled (start_attach who resumeData st)) = start_outcomes (settled st) @ [StartRejected]"
  using assms
  by (cases who; cases resumeData) (auto simp: start_attach_def start_settled_def start_outcomes_def Let_def)

lemma destroy_before_attach_example:
  "settled (performed [CallStart, CallDestroy, LoadDone None, Runtime 0 (WsClose [])]
     (new_Socket (demo_settings\<lparr>sessionStore := False\<rparr>) 0)) = [StartRejected, DestroyResolved True]"
  by (simp add: run_eval sock_eval)

end
